theory Spec2Isabelle
  imports Complex_Main
begin

unbundle bit_operations_syntax

section \<open>Constants and data model of testGame.cpp\<close>

text \<open>
  The C++ \<^verbatim>\<open>int\<close> values of the program (grid coordinates, sizes, pixel offsets of
  cells of the 40 x 30 dungeon) stay far inside the 32-bit range, so they are modelled as
  \<^typ>\<open>int\<close>. The C++ \<^verbatim>\<open>float\<close> fields (pixel position, progress, hold time, camera
  offset) hold \<^typ>\<open>real\<close> numbers. The definitions of the camera, the player and the
  frame update compute them exactly, without rounding; the two operations that accumulate
  a float sum against a threshold are modelled a second time with binary32 rounding, in
  the section after the player.
\<close>

definition SCREEN_WIDTH :: int where "SCREEN_WIDTH = 800"
definition SCREEN_HEIGHT :: int where "SCREEN_HEIGHT = 600"
definition TILE_SIZE :: int where "TILE_SIZE = 40"
definition PLAYER_SIZE :: int where "PLAYER_SIZE = 30"
definition MOVE_SPEED :: real where "MOVE_SPEED = 8"
definition INPUT_BUFFER_TIME :: real where "INPUT_BUFFER_TIME = 15 / 100"
definition DUNGEON_WIDTH :: int where "DUNGEON_WIDTH = 40"
definition DUNGEON_HEIGHT :: int where "DUNGEON_HEIGHT = 30"

lemmas game_consts =
  SCREEN_WIDTH_def SCREEN_HEIGHT_def TILE_SIZE_def PLAYER_SIZE_def MOVE_SPEED_def
  INPUT_BUFFER_TIME_def DUNGEON_WIDTH_def DUNGEON_HEIGHT_def

text \<open>
  C++ integer division truncates towards zero; the divisors of the program are positive
  constants.
\<close>

definition tdiv :: "int \<Rightarrow> int \<Rightarrow> int" where
  "tdiv a b = (if (a < 0) = (b < 0) then \<bar>a\<bar> div \<bar>b\<bar> else - (\<bar>a\<bar> div \<bar>b\<bar>))"

text \<open>The C++ remainder goes with the truncating quotient.\<close>

definition tmod :: "int \<Rightarrow> int \<Rightarrow> int" where
  "tmod a b = a - b * tdiv a b"

datatype TileType = WALL | FLOOR | CORRIDOR

text \<open>
  \<^verbatim>\<open>enum Direction\<close> is a bit mask: the four keys are the bits 1, 2, 4 and 8, and
  \<^verbatim>\<open>getDirectionFromInput\<close> casts any OR of them to the enum type.
\<close>

type_synonym Direction = nat

definition NONE :: Direction where "NONE = 0"
definition UP :: Direction where "UP = 1"
definition DOWN :: Direction where "DOWN = 2"
definition LEFT :: Direction where "LEFT = 4"
definition RIGHT :: Direction where "RIGHT = 8"

lemmas dir_consts = NONE_def UP_def DOWN_def LEFT_def RIGHT_def

text \<open>
  \<^verbatim>\<open>struct Room\<close> and \<^verbatim>\<open>struct Camera\<close> both have fields x, y, width and height;
  the fields carry the struct's name as a prefix here.
\<close>

record Room =
  room_x :: int
  room_y :: int
  room_width :: int
  room_height :: int

record Camera =
  cam_x :: real
  cam_y :: real
  cam_width :: int
  cam_height :: int

record Player =
  gridX :: int
  gridY :: int
  pixelX :: real
  pixelY :: real
  isMoving :: bool
  movingDirection :: Direction
  moveProgress :: real
  targetGridX :: int
  targetGridY :: int
  lastInputDirection :: Direction
  inputHoldTime :: real
  continuousMoveEnabled :: bool

section \<open>Camera\<close>

definition Camera_init :: Camera where
  "Camera_init = \<lparr>cam_x = 0, cam_y = 0, cam_width = SCREEN_WIDTH, cam_height = SCREEN_HEIGHT\<rparr>"

text \<open>
  One axis of \<^verbatim>\<open>Camera::followPlayer\<close>: centre, clamp below at 0, then clamp above at
  the dungeon size minus the viewport size. The two integer halves are computed in
  \<^verbatim>\<open>int\<close> before they are added to the float.
\<close>

definition followAxis :: "real \<Rightarrow> int \<Rightarrow> int \<Rightarrow> real" where
  "followAxis playerPos viewSize dungeonPixelSize =
     (let c0 = playerPos + real_of_int (tdiv PLAYER_SIZE 2) - real_of_int (tdiv viewSize 2);
          c1 = (if c0 < 0 then 0 else c0)
      in if c1 > real_of_int (dungeonPixelSize - viewSize)
         then real_of_int (dungeonPixelSize - viewSize) else c1)"

definition followPlayer :: "Camera \<Rightarrow> real \<Rightarrow> real \<Rightarrow> int \<Rightarrow> int \<Rightarrow> Camera" where
  "followPlayer cam playerX playerY dungeonPixelWidth dungeonPixelHeight =
     cam\<lparr>cam_x := followAxis playerX (cam_width cam) dungeonPixelWidth,
         cam_y := followAxis playerY (cam_height cam) dungeonPixelHeight\<rparr>"

section \<open>Player\<close>

definition Player_init :: Player where
  "Player_init = \<lparr>gridX = 0, gridY = 0, pixelX = 0, pixelY = 0, isMoving = False,
     movingDirection = NONE, moveProgress = 0, targetGridX = 0, targetGridY = 0,
     lastInputDirection = NONE, inputHoldTime = 0, continuousMoveEnabled = False\<rparr>"

text \<open>The canonical pixel coordinate of a cell index, computed in \<^verbatim>\<open>int\<close>.\<close>

definition cellPixel :: "int \<Rightarrow> real" where
  "cellPixel c = real_of_int (c * TILE_SIZE + tdiv (TILE_SIZE - PLAYER_SIZE) 2)"

definition setGridPosition :: "Player \<Rightarrow> int \<Rightarrow> int \<Rightarrow> Player" where
  "setGridPosition p x y =
     p\<lparr>gridX := x, gridY := y, targetGridX := x, targetGridY := y,
       pixelX := cellPixel x, pixelY := cellPixel y\<rparr>"

definition startMove :: "Player \<Rightarrow> Direction \<Rightarrow> int \<Rightarrow> int \<Rightarrow> Player" where
  "startMove p dir destGridX destGridY =
     p\<lparr>isMoving := True, movingDirection := dir, moveProgress := 0,
       targetGridX := destGridX, targetGridY := destGridY\<rparr>"

definition updateMovement :: "Player \<Rightarrow> real \<Rightarrow> Player" where
  "updateMovement p deltaTime =
     (if \<not> isMoving p then p
      else
        let prog = moveProgress p + MOVE_SPEED * deltaTime in
        if prog \<ge> 1 then
          p\<lparr>moveProgress := 1,
            gridX := targetGridX p, gridY := targetGridY p,
            pixelX := cellPixel (targetGridX p), pixelY := cellPixel (targetGridY p),
            isMoving := False, movingDirection := NONE\<rparr>
        else
          let startPixelX = cellPixel (gridX p);
              startPixelY = cellPixel (gridY p);
              endPixelX = cellPixel (targetGridX p);
              endPixelY = cellPixel (targetGridY p);
              t = 1 - (1 - prog) ^ 3
          in p\<lparr>moveProgress := prog,
               pixelX := startPixelX + (endPixelX - startPixelX) * t,
               pixelY := startPixelY + (endPixelY - startPixelY) * t\<rparr>)"

definition updateInputTiming :: "Player \<Rightarrow> Direction \<Rightarrow> real \<Rightarrow> Player" where
  "updateInputTiming p currentInput deltaTime =
     (if currentInput = NONE then
        p\<lparr>lastInputDirection := NONE, inputHoldTime := 0, continuousMoveEnabled := False\<rparr>
      else if currentInput = lastInputDirection p then
        let h = inputHoldTime p + deltaTime in
        if h \<ge> INPUT_BUFFER_TIME
        then p\<lparr>inputHoldTime := h, continuousMoveEnabled := True\<rparr>
        else p\<lparr>inputHoldTime := h\<rparr>
      else
        p\<lparr>lastInputDirection := currentInput, inputHoldTime := 0,
          continuousMoveEnabled := False\<rparr>)"

definition shouldAcceptInput :: "Player \<Rightarrow> bool" where
  "shouldAcceptInput p = (\<not> isMoving p \<or> continuousMoveEnabled p)"

text \<open>
  \<^verbatim>\<open>getTargetFromDirection\<close> writes its two reference parameters; the model returns
  them as a pair (targetX, targetY). Each of the four bit tests adjusts one coordinate.
\<close>

definition getTargetFromDirection :: "Direction \<Rightarrow> int \<Rightarrow> int \<Rightarrow> int \<times> int" where
  "getTargetFromDirection dir currentX currentY =
     (let targetX = currentX;
          targetY = currentY;
          targetY = (if dir AND UP \<noteq> 0 then targetY - 1 else targetY);
          targetY = (if dir AND DOWN \<noteq> 0 then targetY + 1 else targetY);
          targetX = (if dir AND LEFT \<noteq> 0 then targetX - 1 else targetX);
          targetX = (if dir AND RIGHT \<noteq> 0 then targetX + 1 else targetX)
      in (targetX, targetY))"

section \<open>The accumulating player operations in binary32\<close>

text \<open>
  The definitions above compute the float fields with exact real arithmetic. That is
  adequate where no threshold test is near: the snap, the camera and the three-frame
  scenario take the same branches either way. \<^verbatim>\<open>updateMovement\<close> and
  \<^verbatim>\<open>updateInputTiming\<close> compare a running float sum with a threshold, and there the
  rounding of each addition decides which call crosses it. So these two are modelled a
  second time, with every float operation rounded as the program's \<^verbatim>\<open>float\<close> type
  rounds it: IEEE 754 binary32, round to nearest with ties to even, a 24-bit significand
  and subnormal numbers down to 2^-149, each operation rounded on its own.

  \<open>rne\<close> rounds a real to the nearest integer, ties to the even one; \<open>pow2 e\<close> is
  2^e; \<open>expo x\<close> is the binary exponent of \<open>x\<close>; \<open>round_to prec emin x\<close> is the
  multiple of the unit in the last place of \<open>x\<close> (for a significand of \<open>prec\<close> bits
  and a least unit of 2^emin) that is nearest to \<open>x\<close>. \<open>f32\<close> is the rounding of
  \<^verbatim>\<open>float\<close> and \<open>f64\<close> that of \<^verbatim>\<open>double\<close>. A result beyond the largest finite
  float (about 3.4 * 10^38) is +infinity in the program; the model keeps the rounded
  value with its exponent unbounded, so its numbers are the program's as long as they stay
  below 2^128. For the non-negative operands of these two functions a larger value passes
  the tests \<^verbatim>\<open>>= 1.0f\<close> and \<^verbatim>\<open>>= INPUT_BUFFER_TIME\<close> exactly as +infinity does, and
  \<^verbatim>\<open>updateMovement\<close> overwrites it with 1.0f before it returns.
\<close>

definition rne :: "real \<Rightarrow> int" where
  "rne r = (let f = \<lfloor>r\<rfloor>; d = r - of_int f
            in if d < 1 / 2 then f else if 1 / 2 < d then f + 1 else if even f then f else f + 1)"

definition pow2 :: "int \<Rightarrow> real" where
  "pow2 e = (if 0 \<le> e then 2 ^ nat e else 1 / 2 ^ nat (- e))"

definition expo :: "real \<Rightarrow> int" where
  "expo x = \<lfloor>log 2 \<bar>x\<bar>\<rfloor>"

definition round_to :: "nat \<Rightarrow> int \<Rightarrow> real \<Rightarrow> real" where
  "round_to prec emin x =
     (if x = 0 then 0
      else let E = max emin (expo x - (int prec - 1))
           in sgn x * of_int (rne (\<bar>x\<bar> / pow2 E)) * pow2 E)"

definition f32 :: "real \<Rightarrow> real" where
  "f32 x = round_to 24 (- 149) x"

definition f64 :: "real \<Rightarrow> real" where
  "f64 x = round_to 53 (- 1074) x"

text \<open>
  The float constant \<^verbatim>\<open>0.15f\<close> is the float nearest to 0.15, and the canonical pixel
  coordinate is computed in \<^verbatim>\<open>int\<close> and converted to float by the assignment.
\<close>

definition INPUT_BUFFER_TIME_f32 :: real where
  "INPUT_BUFFER_TIME_f32 = f32 (15 / 100)"

definition cellPixel_f32 :: "int \<Rightarrow> real" where
  "cellPixel_f32 c = f32 (real_of_int (c * TILE_SIZE + tdiv (TILE_SIZE - PLAYER_SIZE) 2))"

text \<open>
  \<^verbatim>\<open>updateMovement\<close> with its float operations rounded: the product
  \<^verbatim>\<open>MOVE_SPEED * deltaTime\<close>, then the sum with \<^verbatim>\<open>moveProgress\<close>. In the
  interpolation branch \<^verbatim>\<open>1 - t\<close> is a float subtraction; \<^verbatim>\<open>pow(1 - t, 3)\<close> is the
  C library's \<^verbatim>\<open>pow\<close> on doubles, which is no code of this program and is taken as
  the parameter \<open>pow\<close>; \<^verbatim>\<open>1 - pow(...)\<close> is a double subtraction, and the assignment
  to \<^verbatim>\<open>t\<close> converts it to float. The pixel position is then three float operations.
\<close>

definition updateMovement_f32 :: "(real \<Rightarrow> real \<Rightarrow> real) \<Rightarrow> Player \<Rightarrow> real \<Rightarrow> Player" where
  "updateMovement_f32 pow p deltaTime =
     (if \<not> isMoving p then p
      else
        let prog = f32 (moveProgress p + f32 (MOVE_SPEED * deltaTime)) in
        if prog \<ge> 1 then
          p\<lparr>moveProgress := 1,
            gridX := targetGridX p, gridY := targetGridY p,
            pixelX := cellPixel_f32 (targetGridX p), pixelY := cellPixel_f32 (targetGridY p),
            isMoving := False, movingDirection := NONE\<rparr>
        else
          let startPixelX = cellPixel_f32 (gridX p);
              startPixelY = cellPixel_f32 (gridY p);
              endPixelX = cellPixel_f32 (targetGridX p);
              endPixelY = cellPixel_f32 (targetGridY p);
              t = f32 (f64 (1 - pow (f32 (1 - prog)) 3))
          in p\<lparr>moveProgress := prog,
               pixelX := f32 (startPixelX + f32 (f32 (endPixelX - startPixelX) * t)),
               pixelY := f32 (startPixelY + f32 (f32 (endPixelY - startPixelY) * t))\<rparr>)"

text \<open>
  \<^verbatim>\<open>updateInputTiming\<close> with the float addition to the hold time rounded and the
  float threshold.
\<close>

definition updateInputTiming_f32 :: "Player \<Rightarrow> Direction \<Rightarrow> real \<Rightarrow> Player" where
  "updateInputTiming_f32 p currentInput deltaTime =
     (if currentInput = NONE then
        p\<lparr>lastInputDirection := NONE, inputHoldTime := 0, continuousMoveEnabled := False\<rparr>
      else if currentInput = lastInputDirection p then
        let h = f32 (inputHoldTime p + deltaTime) in
        if h \<ge> INPUT_BUFFER_TIME_f32
        then p\<lparr>inputHoldTime := h, continuousMoveEnabled := True\<rparr>
        else p\<lparr>inputHoldTime := h\<rparr>
      else
        p\<lparr>lastInputDirection := currentInput, inputHoldTime := 0,
          continuousMoveEnabled := False\<rparr>)"

section \<open>The dungeon grid\<close>

text \<open>
  \<^verbatim>\<open>int dungeon[DUNGEON_HEIGHT][DUNGEON_WIDTH]\<close> is a list of rows; the program stores
  only the three enumerators of \<^verbatim>\<open>TileType\<close> in it. \<^verbatim>\<open>dungeon[y][x]\<close> is
  \<open>getCell g x y\<close>, and the assignment \<^verbatim>\<open>dungeon[y][x] = v\<close> is \<open>setCell g x y v\<close>.
  Every access of the generator stands under the source's own bounds test.
\<close>

type_synonym Grid = "TileType list list"

definition getCell :: "Grid \<Rightarrow> int \<Rightarrow> int \<Rightarrow> TileType" where
  "getCell g x y = g ! nat y ! nat x"

definition setCell :: "Grid \<Rightarrow> int \<Rightarrow> int \<Rightarrow> TileType \<Rightarrow> Grid" where
  "setCell g x y v = g[nat y := (g ! nat y)[nat x := v]]"

text \<open>
  A read that reports an index outside the array as \<open>None\<close> instead of returning an
  unspecified element; \<^verbatim>\<open>isWalkable\<close> is modelled with it, so that an out-of-bounds
  read of that query would be visible in its result.
\<close>

definition readCell :: "Grid \<Rightarrow> int \<Rightarrow> int \<Rightarrow> TileType option" where
  "readCell g x y =
     (if 0 \<le> y \<and> nat y < length g \<and> 0 \<le> x \<and> nat x < length (g ! nat y)
      then Some (g ! nat y ! nat x) else None)"

definition isWalkable :: "Grid \<Rightarrow> int \<Rightarrow> int \<Rightarrow> bool option" where
  "isWalkable g gridX' gridY' =
     (if gridX' < 0 \<or> gridX' \<ge> DUNGEON_WIDTH \<or> gridY' < 0 \<or> gridY' \<ge> DUNGEON_HEIGHT
      then Some False
      else map_option (\<lambda>t. t \<noteq> WALL) (readCell g gridX' gridY'))"

section \<open>Dungeon generation\<close>

text \<open>
  \<^verbatim>\<open>rand()\<close> is a stream of non-negative numbers, given as a function from the number
  of the call to its result; the position in the stream is threaded through the generator.
\<close>

type_synonym RandSource = "nat \<Rightarrow> nat"

definition rand :: "RandSource \<Rightarrow> nat \<Rightarrow> int \<times> nat" where
  "rand rs k = (int (rs k), Suc k)"

text \<open>
  \<^verbatim>\<open>generateRoom\<close> leaves x and y of the new room unset; \<^verbatim>\<open>generateDungeon\<close> assigns
  both before anything reads them. The model puts 0 there.
\<close>

definition generateRoom :: "RandSource \<Rightarrow> nat \<Rightarrow> int \<Rightarrow> int \<Rightarrow> Room \<times> nat" where
  "generateRoom rs k minSize maxSize =
     (let (r1, k1) = rand rs k;
          w = minSize + tmod r1 (maxSize - minSize + 1);
          (r2, k2) = rand rs k1;
          h = minSize + tmod r2 (maxSize - minSize + 1)
      in (\<lparr>room_x = 0, room_y = 0, room_width = w, room_height = h\<rparr>, k2))"

fun roomOverlaps :: "Room \<Rightarrow> Room list \<Rightarrow> int \<Rightarrow> bool" where
  "roomOverlaps newRoom [] padding = False"
| "roomOverlaps newRoom (room # existingRooms) padding =
     (if room_x newRoom < room_x room + room_width room + padding \<and>
         room_x newRoom + room_width newRoom + padding > room_x room \<and>
         room_y newRoom < room_y room + room_height room + padding \<and>
         room_y newRoom + room_height newRoom + padding > room_y room
      then True
      else roomOverlaps newRoom existingRooms padding)"

text \<open>The inner loop of \<^verbatim>\<open>carveRoom\<close> (over x, in row y) and its outer loop (over y).\<close>

function carveRoom_row :: "Grid \<Rightarrow> Room \<Rightarrow> int \<Rightarrow> int \<Rightarrow> Grid" where
  "carveRoom_row g room y x =
     (if x < room_x room + room_width room
      then carveRoom_row
             (if y \<ge> 0 \<and> y < DUNGEON_HEIGHT \<and> x \<ge> 0 \<and> x < DUNGEON_WIDTH
              then setCell g x y FLOOR else g)
             room y (x + 1)
      else g)"
  by pat_completeness auto
termination
  by (relation "measure (\<lambda>(g, room, y, x). nat (room_x room + room_width room - x))") auto

function carveRoom_rows :: "Grid \<Rightarrow> Room \<Rightarrow> int \<Rightarrow> Grid" where
  "carveRoom_rows g room y =
     (if y < room_y room + room_height room
      then carveRoom_rows (carveRoom_row g room y (room_x room)) room (y + 1)
      else g)"
  by pat_completeness auto
termination
  by (relation "measure (\<lambda>(g, room, y). nat (room_y room + room_height room - y))") auto

definition carveRoom :: "Grid \<Rightarrow> Room \<Rightarrow> Grid" where
  "carveRoom g room = carveRoom_rows g room (room_y room)"

text \<open>The loops of the two corridor functions, from the running index to the end index.\<close>

function carveHorizontalCorridor_loop :: "Grid \<Rightarrow> int \<Rightarrow> int \<Rightarrow> int \<Rightarrow> Grid" where
  "carveHorizontalCorridor_loop g x endX y =
     (if x \<le> endX
      then carveHorizontalCorridor_loop
             (if x \<ge> 0 \<and> x < DUNGEON_WIDTH \<and> y \<ge> 0 \<and> y < DUNGEON_HEIGHT
              then (if getCell g x y = WALL then setCell g x y CORRIDOR else g)
              else g)
             (x + 1) endX y
      else g)"
  by pat_completeness auto
termination
  by (relation "measure (\<lambda>(g, x, endX, y). nat (endX + 1 - x))") auto

definition carveHorizontalCorridor :: "Grid \<Rightarrow> int \<Rightarrow> int \<Rightarrow> int \<Rightarrow> Grid" where
  "carveHorizontalCorridor g x1 x2 y =
     (let startX = min x1 x2; endX = max x1 x2
      in carveHorizontalCorridor_loop g startX endX y)"

function carveVerticalCorridor_loop :: "Grid \<Rightarrow> int \<Rightarrow> int \<Rightarrow> int \<Rightarrow> Grid" where
  "carveVerticalCorridor_loop g y endY x =
     (if y \<le> endY
      then carveVerticalCorridor_loop
             (if x \<ge> 0 \<and> x < DUNGEON_WIDTH \<and> y \<ge> 0 \<and> y < DUNGEON_HEIGHT
              then (if getCell g x y = WALL then setCell g x y CORRIDOR else g)
              else g)
             (y + 1) endY x
      else g)"
  by pat_completeness auto
termination
  by (relation "measure (\<lambda>(g, y, endY, x). nat (endY + 1 - y))") auto

definition carveVerticalCorridor :: "Grid \<Rightarrow> int \<Rightarrow> int \<Rightarrow> int \<Rightarrow> Grid" where
  "carveVerticalCorridor g y1 y2 x =
     (let startY = min y1 y2; endY = max y1 y2
      in carveVerticalCorridor_loop g startY endY x)"

text \<open>
  The state of \<^verbatim>\<open>generateDungeon\<close>: the two globals (grid and room list) and the
  position in the random stream. \<open>generateDungeon_attempt\<close> is the body of its
  \<^verbatim>\<open>while\<close> loop without the counter; \<open>rooms.back()\<close> is \<open>last\<close> of a list tested
  to be non-empty.
\<close>

type_synonym GenState = "Grid \<times> Room list \<times> nat"

definition generateDungeon_attempt :: "RandSource \<Rightarrow> GenState \<Rightarrow> GenState" where
  "generateDungeon_attempt rs st =
     (case st of (g, rms, k) \<Rightarrow>
      let (room0, k1) = generateRoom rs k 4 9;
          (rx, k2) = rand rs k1;
          room1 = room0\<lparr>room_x := 1 + tmod rx (DUNGEON_WIDTH - room_width room0 - 2)\<rparr>;
          (ry, k3) = rand rs k2;
          newRoom = room1\<lparr>room_y := 1 + tmod ry (DUNGEON_HEIGHT - room_height room1 - 2)\<rparr>
      in if \<not> roomOverlaps newRoom rms 2 then
           let g1 = carveRoom g newRoom in
           if rms \<noteq> [] then
             let prevRoom = last rms;
                 prevCenterX = room_x prevRoom + tdiv (room_width prevRoom) 2;
                 prevCenterY = room_y prevRoom + tdiv (room_height prevRoom) 2;
                 newCenterX = room_x newRoom + tdiv (room_width newRoom) 2;
                 newCenterY = room_y newRoom + tdiv (room_height newRoom) 2;
                 (rc, k4) = rand rs k3
             in if tmod rc 2 = 0 then
                  (carveVerticalCorridor
                     (carveHorizontalCorridor g1 prevCenterX newCenterX prevCenterY)
                     prevCenterY newCenterY newCenterX,
                   rms @ [newRoom], k4)
                else
                  (carveHorizontalCorridor
                     (carveVerticalCorridor g1 prevCenterY newCenterY prevCenterX)
                     prevCenterX newCenterX newCenterY,
                   rms @ [newRoom], k4)
           else (g1, rms @ [newRoom], k3)
         else (g, rms, k3))"

definition maxAttempts :: int where "maxAttempts = 100"

function generateDungeon_loop :: "RandSource \<Rightarrow> int \<Rightarrow> GenState \<Rightarrow> int \<Rightarrow> GenState" where
  "generateDungeon_loop rs numRooms st attempts =
     (if int (length (fst (snd st))) < numRooms \<and> attempts < maxAttempts
      then generateDungeon_loop rs numRooms (generateDungeon_attempt rs st) (attempts + 1)
      else st)"
  by pat_completeness auto
termination
  by (relation "measure (\<lambda>(rs, numRooms, st, attempts). nat (maxAttempts - attempts))") auto

text \<open>
  The two initialisation loops assign WALL to each of the 30 x 40 elements, whatever the
  array held before, and \<^verbatim>\<open>rooms.clear()\<close> empties the list: the generator's result
  depends on the random stream only.
\<close>

definition wallGrid :: Grid where
  "wallGrid = replicate (nat DUNGEON_HEIGHT) (replicate (nat DUNGEON_WIDTH) WALL)"

definition generateDungeon :: "RandSource \<Rightarrow> nat \<Rightarrow> GenState" where
  "generateDungeon rs k =
     (let (r, k1) = rand rs k;
          numRooms = 8 + tmod r 5
      in generateDungeon_loop rs numRooms (wallGrid, [], k1) 0)"

section \<open>The per-frame update of the PLAYING state\<close>

text \<open>
  The body of \<^verbatim>\<open>if (gameState == PLAYING)\<close> in \<^verbatim>\<open>main\<close>, with the keyboard's
  direction and the frame's time delta as inputs; the line it prints is left out. A
  \<^verbatim>\<open>isWalkable\<close> that read outside the array (\<open>None\<close>) would start no move here.
\<close>

definition playingUpdate :: "Grid \<Rightarrow> Direction \<Rightarrow> real \<Rightarrow> Player \<times> Camera \<Rightarrow> Player \<times> Camera" where
  "playingUpdate g currentInput deltaTime pc =
     (case pc of (player, camera) \<Rightarrow>
      let p1 = updateMovement player deltaTime;
          p2 = updateInputTiming p1 currentInput deltaTime;
          p3 = (if currentInput \<noteq> NONE \<and> shouldAcceptInput p2 then
                  let (targetX, targetY) = getTargetFromDirection currentInput (gridX p2) (gridY p2)
                  in if isWalkable g targetX targetY = Some True
                     then startMove p2 currentInput targetX targetY else p2
                else p2)
      in (p3, followPlayer camera (pixelX p3) (pixelY p3)
                (DUNGEON_WIDTH * TILE_SIZE) (DUNGEON_HEIGHT * TILE_SIZE)))"

section \<open>Vocabulary of the specification\<close>

text \<open>
  The array always has DUNGEON_HEIGHT rows of DUNGEON_WIDTH cells; \<open>inDungeon\<close> is the
  bounds test that the source writes before each access.
\<close>

definition wfGrid :: "Grid \<Rightarrow> bool" where
  "wfGrid g = (length g = nat DUNGEON_HEIGHT \<and> (\<forall>row \<in> set g. length row = nat DUNGEON_WIDTH))"

definition inDungeon :: "int \<Rightarrow> int \<Rightarrow> bool" where
  "inDungeon x y = (0 \<le> x \<and> x < DUNGEON_WIDTH \<and> 0 \<le> y \<and> y < DUNGEON_HEIGHT)"

text \<open>
  Runs of the two accumulating operations in binary32: \<open>updates_f32 pow p ds\<close> calls
  \<^verbatim>\<open>updateMovement\<close> once for each time delta of \<open>ds\<close>, and \<open>arrived_f32 p\<close> is the
  state its completion branch assigns. \<open>inTransition p q\<close> says that \<open>q\<close> is a
  Transitioning state of the move that \<open>p\<close> is in: moving, with a float progress in
  [0, 1), and equal to \<open>p\<close> but for progress and pixel position.
  \<open>holdDirection_f32 p d ds\<close> feeds the same raw direction to
  \<^verbatim>\<open>updateInputTiming\<close> for each delta of \<open>ds\<close>, and \<open>holdSum_f32 h ds\<close> is the hold
  time those calls accumulate from \<open>h\<close>: the float sum, rounded after each addition.
  \<open>holdRight g pc n\<close> runs \<open>n\<close> PLAYING frames of 0.02 s with RIGHT held.
\<close>

definition updates_f32 :: "(real \<Rightarrow> real \<Rightarrow> real) \<Rightarrow> Player \<Rightarrow> real list \<Rightarrow> Player" where
  "updates_f32 pow p ds = foldl (updateMovement_f32 pow) p ds"

definition arrived_f32 :: "Player \<Rightarrow> Player" where
  "arrived_f32 p = p\<lparr>moveProgress := 1, gridX := targetGridX p, gridY := targetGridY p,
       pixelX := cellPixel_f32 (targetGridX p), pixelY := cellPixel_f32 (targetGridY p),
       isMoving := False, movingDirection := NONE\<rparr>"

definition inTransition :: "Player \<Rightarrow> Player \<Rightarrow> bool" where
  "inTransition p q = (isMoving q \<and> 0 \<le> moveProgress q \<and> moveProgress q < 1 \<and>
     f32 (moveProgress q) = moveProgress q \<and>
     q = p\<lparr>moveProgress := moveProgress q, pixelX := pixelX q, pixelY := pixelY q\<rparr>)"

definition holdDirection_f32 :: "Player \<Rightarrow> Direction \<Rightarrow> real list \<Rightarrow> Player" where
  "holdDirection_f32 p d ds = foldl (\<lambda>q \<delta>. updateInputTiming_f32 q d \<delta>) p ds"


definition holdRight :: "Grid \<Rightarrow> Player \<times> Camera \<Rightarrow> nat \<Rightarrow> Player \<times> Camera" where
  "holdRight g pc n = ((playingUpdate g RIGHT (2 / 100)) ^^ n) pc"

text \<open>
  A dungeon with one room, as the spawn scenario of the specification uses it.
\<close>

definition oneRoom :: Room where
  "oneRoom = \<lparr>room_x = 1, room_y = 1, room_width = 4, room_height = 4\<rparr>"

definition oneRoomGrid :: Grid where
  "oneRoomGrid = carveRoom wallGrid oneRoom"

text \<open>
  The two globals of a generator state. \<open>roomCells\<close> are the grid cells a room covers,
  \<open>inflate r pad\<close> grows a room by \<open>pad\<close> cells on every side, and
  \<open>inflatedOverlap a b pad\<close> is the interval form of "the inflated \<open>a\<close> intersects
  \<open>b\<close>". \<open>sampledRoom rs k\<close> is the room that one attempt of the generator draws
  from the random stream at position \<open>k\<close>.
\<close>

definition genGrid :: "GenState \<Rightarrow> Grid" where
  "genGrid st = fst st"

definition genRooms :: "GenState \<Rightarrow> Room list" where
  "genRooms st = fst (snd st)"

definition roomCells :: "Room \<Rightarrow> (int \<times> int) set" where
  "roomCells r = {(cx, cy). room_x r \<le> cx \<and> cx < room_x r + room_width r \<and>
                             room_y r \<le> cy \<and> cy < room_y r + room_height r}"

definition inflate :: "Room \<Rightarrow> int \<Rightarrow> Room" where
  "inflate r pad = \<lparr>room_x = room_x r - pad, room_y = room_y r - pad,
                    room_width = room_width r + 2 * pad, room_height = room_height r + 2 * pad\<rparr>"

definition inflatedOverlap :: "Room \<Rightarrow> Room \<Rightarrow> int \<Rightarrow> bool" where
  "inflatedOverlap a b pad =
     (room_x a - pad < room_x b + room_width b \<and> room_x b < room_x a + room_width a + pad \<and>
      room_y a - pad < room_y b + room_height b \<and> room_y b < room_y a + room_height a + pad)"

definition roomsApart :: "Room list \<Rightarrow> bool" where
  "roomsApart rms = (\<forall>i j. i < length rms \<and> j < length rms \<and> i \<noteq> j \<longrightarrow>
                       \<not> inflatedOverlap (rms ! i) (rms ! j) 2)"

definition sampledRoom :: "RandSource \<Rightarrow> nat \<Rightarrow> Room" where
  "sampledRoom rs k =
     (let w = 4 + tmod (int (rs k)) 6; h = 4 + tmod (int (rs (k + 1))) 6
      in \<lparr>room_x = 1 + tmod (int (rs (k + 2))) (DUNGEON_WIDTH - w - 2),
          room_y = 1 + tmod (int (rs (k + 3))) (DUNGEON_HEIGHT - h - 2),
          room_width = w, room_height = h\<rparr>)"

text \<open>
  Traversability: a cell is walkable when it lies in the dungeon and its kind is Floor
  or Corridor; \<open>reachable g a b\<close> holds when a chain of walkable cells, each
  4-adjacent to the one before, leads from \<open>a\<close> to \<open>b\<close>, and \<open>cellPath g cs\<close> checks
  that the list \<open>cs\<close> is such a chain. \<open>roomOK\<close> are the bounds
  every sampled room satisfies, \<open>roomCenter\<close> is the corridor end point of a room, and
  \<open>genInv\<close> is the invariant of the generator loop.
\<close>

definition walkableCell :: "Grid \<Rightarrow> int \<times> int \<Rightarrow> bool" where
  "walkableCell g c = (inDungeon (fst c) (snd c) \<and>
     (getCell g (fst c) (snd c) = FLOOR \<or> getCell g (fst c) (snd c) = CORRIDOR))"

definition adjacent4 :: "int \<times> int \<Rightarrow> int \<times> int \<Rightarrow> bool" where
  "adjacent4 c d = (\<bar>fst c - fst d\<bar> + \<bar>snd c - snd d\<bar> = 1)"

inductive reachable :: "Grid \<Rightarrow> int \<times> int \<Rightarrow> int \<times> int \<Rightarrow> bool" for g :: Grid where
  start: "walkableCell g a \<Longrightarrow> reachable g a a"
| step: "reachable g a b \<Longrightarrow> adjacent4 b c \<Longrightarrow> walkableCell g c \<Longrightarrow> reachable g a c"

fun cellPath :: "Grid \<Rightarrow> (int \<times> int) list \<Rightarrow> bool" where
  "cellPath g [] = False"
| "cellPath g [c] = walkableCell g c"
| "cellPath g (c # d # cs) = (walkableCell g c \<and> adjacent4 c d \<and> cellPath g (d # cs))"

definition roomOK :: "Room \<Rightarrow> bool" where
  "roomOK r = (4 \<le> room_width r \<and> room_width r \<le> 9 \<and> 4 \<le> room_height r \<and> room_height r \<le> 9 \<and>
               1 \<le> room_x r \<and> room_x r + room_width r \<le> DUNGEON_WIDTH - 2 \<and>
               1 \<le> room_y r \<and> room_y r + room_height r \<le> DUNGEON_HEIGHT - 2)"

definition roomCenter :: "Room \<Rightarrow> int \<times> int" where
  "roomCenter r = (room_x r + tdiv (room_width r) 2, room_y r + tdiv (room_height r) 2)"

definition genInv :: "GenState \<Rightarrow> bool" where
  "genInv st = (wfGrid (genGrid st) \<and>
     (\<forall>r\<in>set (genRooms st). roomOK r \<and> (\<forall>c\<in>roomCells r. walkableCell (genGrid st) c)) \<and>
     (\<forall>r1\<in>set (genRooms st). \<forall>r2\<in>set (genRooms st). \<forall>c1\<in>roomCells r1. \<forall>c2\<in>roomCells r2.
         reachable (genGrid st) c1 c2))"

text \<open>
  A random stream that makes the generator place two rooms.
\<close>

definition demoRand :: RandSource where
  "demoRand i = (if i = 7 then 10 else 0)"

definition demoRooms :: "Room list" where
  "demoRooms = [\<lparr>room_x = 1, room_y = 1, room_width = 4, room_height = 4\<rparr>,
                \<lparr>room_x = 11, room_y = 1, room_width = 4, room_height = 4\<rparr>]"

declare carveRoom_row.simps [simp del] carveRoom_rows.simps [simp del]
  carveHorizontalCorridor_loop.simps [simp del] carveVerticalCorridor_loop.simps [simp del]
  generateDungeon_loop.simps [simp del]

section \<open>Opposing keys\<close>

text \<open>
  Claim C10. When both opposing bits of an axis are set in the direction mask (UP and
  DOWN, or LEFT and RIGHT), the target returned by getTargetFromDirection has the current
  coordinate on that axis: the two unit offsets cancel.
\<close>

theorem getTargetFromDirection_opposing_cancel:
  "(dir AND UP \<noteq> 0 \<and> dir AND DOWN \<noteq> 0 \<longrightarrow>
      snd (getTargetFromDirection dir currentX currentY) = currentY) \<and>
   (dir AND LEFT \<noteq> 0 \<and> dir AND RIGHT \<noteq> 0 \<longrightarrow>
      fst (getTargetFromDirection dir currentX currentY) = currentX)"
  by (simp add: getTargetFromDirection_def Let_def)

theorem getTargetFromDirection_opposing_cancel_witness:
  "(15::nat) AND UP \<noteq> 0 \<and> (15::nat) AND DOWN \<noteq> 0 \<and>
   (15::nat) AND LEFT \<noteq> 0 \<and> (15::nat) AND RIGHT \<noteq> 0 \<and>
   snd (getTargetFromDirection 15 7 9) = 9 \<and> fst (getTargetFromDirection 15 7 9) = 7"
  using getTargetFromDirection_opposing_cancel [of 15 7 9]
  by (simp add: dir_consts)

section \<open>Snapping the player to a cell\<close>

lemma tdiv_consts: "tdiv (TILE_SIZE - PLAYER_SIZE) 2 = 5" "tdiv PLAYER_SIZE 2 = 15"
  by (simp_all add: tdiv_def game_consts)

text \<open>
  Claim C4, as amended. setGridPosition sets the current and the target cell to (x, y)
  and the pixel position to the canonical position of that cell; it leaves the moving
  flag, the direction, the progress, the last input direction, the hold time and the
  continuous-move flag as they were.
\<close>

theorem setGridPosition_effect:
  "pixelX (setGridPosition p x y) = real_of_int x * real_of_int TILE_SIZE + real_of_int (TILE_SIZE - PLAYER_SIZE) / 2 \<and>
   pixelY (setGridPosition p x y) = real_of_int y * real_of_int TILE_SIZE + real_of_int (TILE_SIZE - PLAYER_SIZE) / 2 \<and>
   gridX (setGridPosition p x y) = x \<and> gridY (setGridPosition p x y) = y \<and>
   targetGridX (setGridPosition p x y) = x \<and> targetGridY (setGridPosition p x y) = y \<and>
   isMoving (setGridPosition p x y) = isMoving p \<and>
   movingDirection (setGridPosition p x y) = movingDirection p \<and>
   moveProgress (setGridPosition p x y) = moveProgress p \<and>
   lastInputDirection (setGridPosition p x y) = lastInputDirection p \<and>
   inputHoldTime (setGridPosition p x y) = inputHoldTime p \<and>
   continuousMoveEnabled (setGridPosition p x y) = continuousMoveEnabled p"
  by (simp add: setGridPosition_def cellPixel_def tdiv_consts) (simp add: game_consts)

text \<open>
  The claim as stated fails for a player in the middle of a Transition: after the snap
  the player is still moving, with its direction and progress unchanged.
\<close>

theorem setGridPosition_counterexample:
  "isMoving (setGridPosition (updateMovement (startMove Player_init RIGHT 1 0) (1 / 20)) 3 3) \<and>
   movingDirection (setGridPosition (updateMovement (startMove Player_init RIGHT 1 0) (1 / 20)) 3 3) = RIGHT \<and>
   RIGHT \<noteq> NONE \<and>
   moveProgress (setGridPosition (updateMovement (startMove Player_init RIGHT 1 0) (1 / 20)) 3 3) = 2 / 5"
  by (simp add: setGridPosition_def updateMovement_def startMove_def Player_init_def Let_def
      MOVE_SPEED_def dir_consts)

section \<open>Camera clamping\<close>

text \<open>
  Claim C5, as amended. followPlayer centres the viewport on the player's pixel centre
  and clamps the offset; on an axis where the dungeon is at least as large as the
  viewport the viewport stays inside the dungeon, and on an axis where the dungeon is
  smaller the offset is the dungeon size minus the viewport size (the upper clamp is
  applied last).
\<close>

theorem followPlayer_clamp:
  "cam_x (followPlayer cam playerX playerY dw dh) =
     (if dw < cam_width cam then real_of_int (dw - cam_width cam)
      else max 0 (min (real_of_int (dw - cam_width cam))
             (playerX + real_of_int (tdiv PLAYER_SIZE 2) - real_of_int (tdiv (cam_width cam) 2)))) \<and>
   cam_y (followPlayer cam playerX playerY dw dh) =
     (if dh < cam_height cam then real_of_int (dh - cam_height cam)
      else max 0 (min (real_of_int (dh - cam_height cam))
             (playerY + real_of_int (tdiv PLAYER_SIZE 2) - real_of_int (tdiv (cam_height cam) 2)))) \<and>
   (cam_width cam \<le> dw \<longrightarrow>
      0 \<le> cam_x (followPlayer cam playerX playerY dw dh) \<and>
      cam_x (followPlayer cam playerX playerY dw dh) + real_of_int (cam_width cam) \<le> real_of_int dw) \<and>
   (cam_height cam \<le> dh \<longrightarrow>
      0 \<le> cam_y (followPlayer cam playerX playerY dw dh) \<and>
      cam_y (followPlayer cam playerX playerY dw dh) + real_of_int (cam_height cam) \<le> real_of_int dh) \<and>
   cam_width (followPlayer cam playerX playerY dw dh) = cam_width cam \<and>
   cam_height (followPlayer cam playerX playerY dw dh) = cam_height cam"
  by (auto simp add: followPlayer_def followAxis_def Let_def max_def min_def)

theorem followPlayer_clamp_witness:
  "cam_width Camera_init \<le> 1600 \<and> cam_height Camera_init \<le> 1200 \<and>
   cam_x (followPlayer Camera_init 1000 5 1600 1200) = 615 \<and>
   cam_y (followPlayer Camera_init 1000 5 1600 1200) = 0 \<and>
   cam_x (followPlayer Camera_init 1000 5 1600 1200) + real_of_int (cam_width Camera_init) \<le> 1600 \<and>
   cam_x (followPlayer Camera_init 1000 5 1000 300) = 200 \<and>
   cam_y (followPlayer Camera_init 1000 5 1000 300) = - 300"
  using followPlayer_clamp [of Camera_init 1000 5 1600 1200] followPlayer_clamp [of Camera_init 1000 5 1000 300]
  by (simp add: Camera_init_def tdiv_def game_consts)

text \<open>
  The claim as stated fails: with a 400 pixel wide dungeon and the 800 pixel viewport the
  offset is -400, not the lower bound 0.
\<close>

theorem followPlayer_counterexample:
  "(400::int) < cam_width Camera_init \<and> cam_x (followPlayer Camera_init 0 0 400 300) = - 400 \<and>
   cam_x (followPlayer Camera_init 0 0 400 300) \<noteq> 0"
  by (simp add: followPlayer_def followAxis_def Camera_init_def Let_def tdiv_def game_consts)

section \<open>Rounding to binary32\<close>

text \<open>
  Rounding is monotone, leaves a representable number (an integer of at most 24 bits
  times a power of two not below 2^-149) as it is, and is idempotent. \<open>f32_eval\<close>
  computes the rounding of a concrete number from its binary exponent.
\<close>

lemma rne_of_int [simp]: "rne (of_int k) = k"
  by (simp add: rne_def)

lemma rne_bounds: "\<lfloor>r\<rfloor> \<le> rne r \<and> rne r \<le> \<lfloor>r\<rfloor> + 1"
  by (simp add: rne_def Let_def)

lemma rne_mono:
  assumes "r \<le> s"
  shows "rne r \<le> rne s"
proof (cases "\<lfloor>r\<rfloor> < \<lfloor>s\<rfloor>")
  case True
  then show ?thesis using rne_bounds [of r] rne_bounds [of s] by linarith
next
  case False
  then have eq: "\<lfloor>r\<rfloor> = \<lfloor>s\<rfloor>" using assms floor_mono [of r s] by linarith
  show ?thesis using assms by (auto simp add: rne_def Let_def eq)
qed

lemma pow2_powr: "pow2 e = 2 powr of_int e"
  by (simp add: pow2_def powr_real_of_int inverse_eq_divide)

lemma pow2_pos [simp]: "0 < pow2 e"
  by (simp add: pow2_powr)

lemma pow2_nonneg [simp]: "0 \<le> pow2 e"
  by (simp add: pow2_powr)

lemma pow2_add: "pow2 (a + b) = pow2 a * pow2 b"
  by (simp add: pow2_powr powr_add)

lemma pow2_mono: "a \<le> b \<Longrightarrow> pow2 a \<le> pow2 b"
  by (simp add: pow2_powr)

lemma pow2_less_iff: "pow2 a < pow2 b \<longleftrightarrow> a < b"
  by (simp add: pow2_powr)

lemma pow2_int: "0 \<le> e \<Longrightarrow> pow2 e = of_int (2 ^ nat e)"
  by (simp add: pow2_def)

lemma pow2_diff: "pow2 a / pow2 b = pow2 (a - b)"
  by (simp add: pow2_powr powr_diff)

lemma expo_bounds: "x \<noteq> 0 \<Longrightarrow> pow2 (expo x) \<le> \<bar>x\<bar> \<and> \<bar>x\<bar> < pow2 (expo x + 1)"
  using floor_log_eq_powr_iff [of "\<bar>x\<bar>" 2 "expo x"]
  by (simp add: expo_def pow2_powr)

lemma expo_eqI: "pow2 e \<le> \<bar>x\<bar> \<Longrightarrow> \<bar>x\<bar> < pow2 (e + 1) \<Longrightarrow> expo x = e"
proof -
  assume a: "pow2 e \<le> \<bar>x\<bar>" "\<bar>x\<bar> < pow2 (e + 1)"
  then have "0 < \<bar>x\<bar>" using pow2_pos [of e] by linarith
  then show ?thesis
    using a floor_log_eq_powr_iff [of "\<bar>x\<bar>" 2 e] by (simp add: expo_def pow2_powr)
qed

lemma expo_mono: "0 < x \<Longrightarrow> x \<le> y \<Longrightarrow> expo x \<le> expo y"
  by (simp add: expo_def floor_mono)

lemma round_to_0 [simp]: "round_to prec emin 0 = 0"
  by (simp add: round_to_def)

lemma expo_minus [simp]: "expo (- x) = expo x"
  by (simp add: expo_def)

lemma round_to_minus: "round_to prec emin (- x) = - round_to prec emin x"
  by (simp add: round_to_def Let_def sgn_minus)

lemma round_to_pos_eq:
  "0 < x \<Longrightarrow> round_to prec emin x =
     of_int (rne (x / pow2 (max emin (expo x - (int prec - 1))))) * pow2 (max emin (expo x - (int prec - 1)))"
  by (simp add: round_to_def Let_def)

lemma rne_0 [simp]: "rne 0 = 0"
  by (simp add: rne_def)

lemma rne_power2 [simp]: "rne (2 ^ n) = 2 ^ n"
  using rne_of_int [of "2 ^ n"] by simp

lemma rne_nonneg: "0 \<le> r \<Longrightarrow> 0 \<le> rne r"
  using rne_mono [of 0 r] by simp

lemma round_to_nonneg: "0 \<le> x \<Longrightarrow> 0 \<le> round_to prec emin x"
proof (cases "x = 0")
  case False
  assume "0 \<le> x"
  then have x: "0 < x" using False by simp
  then have "0 \<le> rne (x / pow2 (max emin (expo x - (int prec - 1))))"
    by (intro rne_nonneg) simp
  then show ?thesis using x by (simp add: round_to_pos_eq)
qed simp

lemma round_to_mono_pos:
  assumes "0 < x" "x \<le> y" "0 < prec"
  shows "round_to prec emin x \<le> round_to prec emin y"
proof -
  define Ex where "Ex = max emin (expo x - (int prec - 1))"
  define Ey where "Ey = max emin (expo y - (int prec - 1))"
  have y: "0 < y" using assms by simp
  have rx: "round_to prec emin x = of_int (rne (x / pow2 Ex)) * pow2 Ex"
    using assms(1) by (simp add: round_to_pos_eq Ex_def)
  have ry: "round_to prec emin y = of_int (rne (y / pow2 Ey)) * pow2 Ey"
    using y by (simp add: round_to_pos_eq Ey_def)
  have le: "Ex \<le> Ey" using expo_mono [OF assms(1,2)] by (simp add: Ex_def Ey_def)
  show ?thesis
  proof (cases "Ex = Ey")
    case True
    have "x / pow2 Ey \<le> y / pow2 Ey" using assms(2) by (intro divide_right_mono) simp_all
    then have "rne (x / pow2 Ey) \<le> rne (y / pow2 Ey)" by (rule rne_mono)
    then show ?thesis unfolding rx ry True by (simp add: mult_right_mono)
  next
    case False
    then have lt: "Ex < Ey" using le by simp
    then have Ey_eq: "Ey = expo y - (int prec - 1)" by (auto simp add: Ex_def Ey_def)
    have "expo x - (int prec - 1) \<le> Ex" by (simp add: Ex_def)
    then have ex: "expo x + 1 \<le> expo y" using lt Ey_eq by linarith
    define m where "m = pow2 (expo y)"
    have "x < pow2 (expo x + 1)" using expo_bounds [of x] assms(1) by simp
    then have xm: "x \<le> m" using pow2_mono [OF ex] by (simp add: m_def)
    have my: "m \<le> y" using expo_bounds [of y] y by (simp add: m_def)
    have n1: "0 \<le> expo y - Ex" using lt Ey_eq assms(3) by linarith
    have "m / pow2 Ex = of_int (2 ^ nat (expo y - Ex))"
      using pow2_int [OF n1] by (simp add: m_def pow2_diff)
    moreover have "rne (x / pow2 Ex) \<le> rne (m / pow2 Ex)"
      using xm by (intro rne_mono divide_right_mono) simp_all
    ultimately have "rne (x / pow2 Ex) \<le> 2 ^ nat (expo y - Ex)" by simp
    then have "of_int (rne (x / pow2 Ex)) * pow2 Ex \<le> of_int (2 ^ nat (expo y - Ex)) * pow2 Ex"
      by (intro mult_right_mono) (simp_all only: of_int_le_iff pow2_pos less_imp_le)
    also have "\<dots> = pow2 (expo y - Ex) * pow2 Ex" using pow2_int [OF n1] by simp
    also have "\<dots> = m" by (simp add: m_def pow2_add [symmetric])
    finally have a: "round_to prec emin x \<le> m" by (simp add: rx)
    have n2: "0 \<le> int prec - 1" using assms(3) by simp
    have "m / pow2 Ey = of_int (2 ^ nat (int prec - 1))"
      using pow2_int [OF n2] by (simp add: m_def pow2_diff Ey_eq)
    moreover have "rne (m / pow2 Ey) \<le> rne (y / pow2 Ey)"
      using my by (intro rne_mono divide_right_mono) simp_all
    ultimately have "2 ^ nat (int prec - 1) \<le> rne (y / pow2 Ey)" by simp
    then have B: "of_int (2 ^ nat (int prec - 1)) * pow2 Ey \<le> of_int (rne (y / pow2 Ey)) * pow2 Ey"
      by (intro mult_right_mono) (simp_all only: of_int_le_iff pow2_pos less_imp_le)
    have C: "of_int (2 ^ nat (int prec - 1)) * pow2 Ey = m"
    proof -
      have "of_int (2 ^ nat (int prec - 1)) * pow2 Ey = pow2 (int prec - 1) * pow2 Ey"
        using pow2_int [OF n2] by simp
      also have "\<dots> = pow2 (int prec - 1 + Ey)" by (simp add: pow2_add)
      also have "\<dots> = m" by (simp add: m_def Ey_eq)
      finally show ?thesis .
    qed
    have b: "m \<le> round_to prec emin y" using B unfolding C ry .
    show ?thesis using a b by linarith
  qed
qed

lemma round_to_mono_nonneg:
  assumes "0 \<le> x" "x \<le> y" "0 < prec"
  shows "round_to prec emin x \<le> round_to prec emin y"
proof (cases "x = 0")
  case True
  then show ?thesis using assms round_to_nonneg [of y] by simp
next
  case False
  then show ?thesis using assms by (intro round_to_mono_pos) simp_all
qed

lemma round_to_mono:
  assumes "x \<le> y" "0 < prec"
  shows "round_to prec emin x \<le> round_to prec emin y"
proof -
  consider "0 \<le> x" | "y \<le> 0" | "x < 0" "0 < y" using assms(1) by linarith
  then show ?thesis
  proof cases
    case 1
    then show ?thesis using assms by (rule round_to_mono_nonneg)
  next
    case 2
    then have "round_to prec emin (- y) \<le> round_to prec emin (- x)"
      using assms by (intro round_to_mono_nonneg) simp_all
    then show ?thesis by (simp add: round_to_minus)
  next
    case 3
    have "0 \<le> round_to prec emin (- x)" using 3 by (intro round_to_nonneg) simp
    moreover have "0 \<le> round_to prec emin y" using 3 by (intro round_to_nonneg) simp
    ultimately show ?thesis by (simp add: round_to_minus)
  qed
qed

lemma round_to_eval:
  assumes "0 < x" "pow2 e \<le> x" "x < pow2 (e + 1)"
  shows "round_to prec emin x =
           of_int (rne (x / pow2 (max emin (e - (int prec - 1))))) * pow2 (max emin (e - (int prec - 1)))"
proof -
  have "expo x = e" using assms by (intro expo_eqI) simp_all
  then show ?thesis using assms(1) by (simp add: round_to_pos_eq)
qed

lemma round_to_repr_lt:
  assumes k: "0 < k" "k < 2 ^ prec" and E: "emin \<le> E"
  shows "round_to prec emin (of_int k * pow2 E) = of_int k * pow2 E"
proof -
  define a where "a = expo (of_int k)"
  have kb: "pow2 a \<le> of_int k" "of_int k < pow2 (a + 1)"
    using expo_bounds [of "of_int k"] k(1) by (simp_all add: a_def)
  have "(of_int k :: real) < of_int (2 ^ prec)" using k(2) by (simp only: of_int_less_iff)
  then have "(of_int k :: real) < pow2 (int prec)" by (simp add: pow2_def)
  then have "pow2 a < pow2 (int prec)" using kb(1) by linarith
  then have a: "a < int prec" by (simp add: pow2_less_iff)
  have v: "0 < of_int k * pow2 E" using k(1) by simp
  have "pow2 (a + E) \<le> of_int k * pow2 E"
    using kb(1) by (simp add: pow2_add mult_right_mono)
  moreover have "of_int k * pow2 E < pow2 (a + E + 1)"
    using kb(2) pow2_add [of "a + 1" E] by (simp add: add.commute add.left_commute mult_strict_right_mono)
  ultimately have r: "round_to prec emin (of_int k * pow2 E) =
      of_int (rne (of_int k * pow2 E / pow2 (max emin (a + E - (int prec - 1))))) *
        pow2 (max emin (a + E - (int prec - 1)))"
    using v by (intro round_to_eval) simp_all
  define E' where "E' = max emin (a + E - (int prec - 1))"
  have le: "E' \<le> E" using a E by (simp add: E'_def)
  then have n: "0 \<le> E - E'" by simp
  have "of_int k * pow2 E / pow2 E' = of_int k * pow2 (E - E')"
    by (simp add: pow2_diff [symmetric])
  also have "\<dots> = of_int (k * 2 ^ nat (E - E'))"
    using pow2_int [OF n] by simp
  finally have q: "of_int k * pow2 E / pow2 E' = of_int (k * 2 ^ nat (E - E'))" .
  have "round_to prec emin (of_int k * pow2 E) = of_int (k * 2 ^ nat (E - E')) * pow2 E'"
    unfolding r E'_def [symmetric] q rne_of_int ..
  also have "\<dots> = of_int k * (pow2 (E - E') * pow2 E')"
    using pow2_int [OF n] by simp
  also have "\<dots> = of_int k * pow2 E" by (simp add: pow2_add [symmetric])
  finally show ?thesis .
qed

lemma round_to_repr:
  assumes k: "0 < k" "k \<le> 2 ^ prec" and E: "emin \<le> E" and p: "0 < prec"
  shows "round_to prec emin (of_int k * pow2 E) = of_int k * pow2 E"
proof (cases "k < 2 ^ prec")
  case True
  then show ?thesis using k(1) E by (intro round_to_repr_lt)
next
  case False
  then have keq: "k = 2 ^ prec" using k(2) by simp
  obtain q where q: "prec = Suc q" using p by (cases prec) auto
  have "pow2 1 = 2" by (simp add: pow2_def)
  then have "of_int k * pow2 E = of_int (2 ^ q) * pow2 (E + 1)"
    by (simp add: keq q pow2_add)
  moreover have "round_to prec emin (of_int (2 ^ q) * pow2 (E + 1)) = of_int (2 ^ q) * pow2 (E + 1)"
    using E by (intro round_to_repr_lt) (simp_all add: q)
  ultimately show ?thesis by simp
qed

lemma round_to_idem_nonneg:
  assumes "0 \<le> x" "0 < prec"
  shows "round_to prec emin (round_to prec emin x) = round_to prec emin x"
proof (cases "x = 0")
  case True
  then show ?thesis by simp
next
  case False
  then have x: "0 < x" using assms by simp
  define E where "E = max emin (expo x - (int prec - 1))"
  define K where "K = rne (x / pow2 E)"
  have r: "round_to prec emin x = of_int K * pow2 E"
    using x by (simp add: round_to_pos_eq E_def K_def)
  have K0: "0 \<le> K" unfolding K_def using x by (intro rne_nonneg) simp
  have "x < pow2 (expo x + 1)" using expo_bounds [of x] x by simp
  also have "\<dots> \<le> pow2 (int prec + E)" by (intro pow2_mono) (simp add: E_def)
  finally have "x / pow2 E \<le> pow2 (int prec)"
    by (simp add: pow2_add pos_divide_le_eq)
  then have "rne (x / pow2 E) \<le> rne (pow2 (int prec))" by (rule rne_mono)
  then have K1: "K \<le> 2 ^ prec" by (simp add: K_def pow2_def)
  show ?thesis
  proof (cases "K = 0")
    case True
    then show ?thesis by (simp add: r)
  next
    case False
    then have "0 < K" using K0 by simp
    then have "round_to prec emin (of_int K * pow2 E) = of_int K * pow2 E"
      using K1 assms(2) by (intro round_to_repr) (simp_all add: E_def)
    then show ?thesis by (simp add: r)
  qed
qed

lemma round_to_idem:
  assumes "0 < prec"
  shows "round_to prec emin (round_to prec emin x) = round_to prec emin x"
proof (cases "0 \<le> x")
  case True
  then show ?thesis using assms by (rule round_to_idem_nonneg)
next
  case False
  then have "round_to prec emin (round_to prec emin (- x)) = round_to prec emin (- x)"
    using assms by (intro round_to_idem_nonneg) simp_all
  then show ?thesis by (simp add: round_to_minus)
qed

lemma round_to_of_int:
  assumes "\<bar>k\<bar> \<le> 2 ^ prec" "emin \<le> 0" "0 < prec"
  shows "round_to prec emin (of_int k) = of_int k"
proof -
  have pos: "round_to prec emin (of_int j) = of_int j" if "0 < j" "j \<le> 2 ^ prec" for j
    using round_to_repr [OF that assms(2,3)] by (simp add: pow2_def)
  consider "k = 0" | "0 < k" | "k < 0" by linarith
  then show ?thesis
  proof cases
    case 1 then show ?thesis by simp
  next
    case 2 then show ?thesis using assms(1) by (intro pos) simp_all
  next
    case 3
    then have "round_to prec emin (of_int (- k)) = of_int (- k)"
      using assms(1) by (intro pos) simp_all
    then show ?thesis by (simp add: round_to_minus)
  qed
qed

lemma f32_eval:
  "0 < x \<Longrightarrow> pow2 e \<le> x \<Longrightarrow> x < pow2 (e + 1) \<Longrightarrow>
   f32 x = of_int (rne (x / pow2 (max (- 149) (e - 23)))) * pow2 (max (- 149) (e - 23))"
  unfolding f32_def by (subst round_to_eval [where e = e]) simp_all

lemma f32_mono: "x \<le> y \<Longrightarrow> f32 x \<le> f32 y"
  unfolding f32_def by (rule round_to_mono) simp_all

lemma f32_idem [simp]: "f32 (f32 x) = f32 x"
  unfolding f32_def by (rule round_to_idem) simp

lemma f32_0 [simp]: "f32 0 = 0"
  by (simp add: f32_def)

lemma f32_nonneg: "0 \<le> x \<Longrightarrow> 0 \<le> f32 x"
  unfolding f32_def by (rule round_to_nonneg)

lemma f32_of_int: "\<bar>k\<bar> \<le> 2 ^ 24 \<Longrightarrow> f32 (of_int k) = of_int k"
  unfolding f32_def by (rule round_to_of_int) simp_all

lemma f32_1 [simp]: "f32 1 = 1"
  using f32_of_int [of 1] by simp

lemma f32_add_nonneg: "f32 a = a \<Longrightarrow> 0 \<le> b \<Longrightarrow> a \<le> f32 (a + b)"
  using f32_mono [of a "a + b"] by simp

lemma f32_repr:
  "0 < k \<Longrightarrow> k \<le> 2 ^ 24 \<Longrightarrow> - 149 \<le> E \<Longrightarrow> f32 (of_int k * pow2 E) = of_int k * pow2 E"
  unfolding f32_def by (rule round_to_repr) simp_all

lemma f32_fix: "f32 z = v \<Longrightarrow> f32 v = v"
  using f32_idem [of z] by simp

text \<open>
  The frame deltas \<^verbatim>\<open>ms / 1000.0f\<close> used in the examples below.
\<close>

lemma f32_33ms: "f32 (33 / 1000) = 4429185 / 2 ^ 27"
  by (subst f32_eval [where e = "- 5"]) (simp_all add: pow2_def rne_def Let_def)

lemma f32_39ms: "f32 (39 / 1000) = 10468983 / 2 ^ 28"
  by (subst f32_eval [where e = "- 5"]) (simp_all add: pow2_def rne_def Let_def)

lemma f32_35ms: "f32 (35 / 1000) = 9395241 / 2 ^ 28"
  by (subst f32_eval [where e = "- 5"]) (simp_all add: pow2_def rne_def Let_def)

lemma f32_18ms: "f32 (18 / 1000) = 2415919 / 2 ^ 27"
  by (subst f32_eval [where e = "- 6"]) (simp_all add: pow2_def rne_def Let_def)

lemma f32_40ms: "f32 (40 / 1000) = 5368709 / 2 ^ 27"
  by (subst f32_eval [where e = "- 5"]) (simp_all add: pow2_def rne_def Let_def)

lemma f32_38ms: "f32 (38 / 1000) = 10200547 / 2 ^ 28"
  by (subst f32_eval [where e = "- 5"]) (simp_all add: pow2_def rne_def Let_def)

lemma f32_16ms: "f32 (16 / 1000) = 8589935 / 2 ^ 29"
  by (subst f32_eval [where e = "- 6"]) (simp_all add: pow2_def rne_def Let_def)

lemma f32_34ms: "f32 (34 / 1000) = 4563403 / 2 ^ 27"
  by (subst f32_eval [where e = "- 5"]) (simp_all add: pow2_def rne_def Let_def)

lemma f32_22ms: "f32 (22 / 1000) = 1476395 / 2 ^ 26"
  by (subst f32_eval [where e = "- 6"]) (simp_all add: pow2_def rne_def Let_def)

section \<open>Movement progress\<close>

lemma step_progress:
  assumes "inTransition p q" "0 \<le> \<delta>"
  shows "moveProgress q \<le> f32 (moveProgress q + f32 (MOVE_SPEED * \<delta>))"
proof -
  have "0 \<le> f32 (MOVE_SPEED * \<delta>)" using assms(2) by (intro f32_nonneg) (simp add: MOVE_SPEED_def)
  then show ?thesis using assms(1) by (intro f32_add_nonneg) (simp_all add: inTransition_def)
qed

lemma step_state:
  assumes "inTransition p q" "0 \<le> \<delta>"
  shows "if 1 \<le> f32 (moveProgress q + f32 (MOVE_SPEED * \<delta>))
         then updateMovement_f32 pow q \<delta> = arrived_f32 p
         else inTransition p (updateMovement_f32 pow q \<delta>) \<and>
              moveProgress (updateMovement_f32 pow q \<delta>) = f32 (moveProgress q + f32 (MOVE_SPEED * \<delta>))"
proof -
  let ?a = "f32 (moveProgress q + f32 (MOVE_SPEED * \<delta>))"
  have q: "q = p\<lparr>moveProgress := moveProgress q, pixelX := pixelX q, pixelY := pixelY q\<rparr>"
    and m: "isMoving q" and q0: "0 \<le> moveProgress q"
    using assms(1) by (simp_all add: inTransition_def)
  have t: "targetGridX q = targetGridX p" "targetGridY q = targetGridY p" "isMoving q = isMoving p"
    by (subst q, simp)+
  have a0: "0 \<le> ?a" using step_progress [OF assms] q0 by linarith
  show ?thesis
  proof (cases "1 \<le> ?a")
    case True
    then have "updateMovement_f32 pow q \<delta> = arrived_f32 q"
      using m by (simp add: updateMovement_f32_def Let_def arrived_f32_def)
    also have "arrived_f32 q = arrived_f32 p"
      by (subst q) (simp add: arrived_f32_def)
    finally show ?thesis using True by simp
  next
    case False
    have "updateMovement_f32 pow q \<delta> =
        q\<lparr>moveProgress := ?a, pixelX := pixelX (updateMovement_f32 pow q \<delta>),
          pixelY := pixelY (updateMovement_f32 pow q \<delta>)\<rparr>"
      using m False by (simp add: updateMovement_f32_def Let_def)
    also have "\<dots> = p\<lparr>moveProgress := ?a, pixelX := pixelX (updateMovement_f32 pow q \<delta>),
          pixelY := pixelY (updateMovement_f32 pow q \<delta>)\<rparr>"
      by (subst q) simp
    finally have u: "updateMovement_f32 pow q \<delta> =
        p\<lparr>moveProgress := ?a, pixelX := pixelX (updateMovement_f32 pow q \<delta>),
          pixelY := pixelY (updateMovement_f32 pow q \<delta>)\<rparr>" .
    have mp: "moveProgress (updateMovement_f32 pow q \<delta>) = ?a" by (subst u) simp
    have im: "isMoving (updateMovement_f32 pow q \<delta>)" using m t(3) by (subst u) simp
    have "inTransition p (updateMovement_f32 pow q \<delta>)"
      unfolding inTransition_def mp using im a0 False u by simp
    then show ?thesis using False mp by simp
  qed
qed

lemma updates_f32_snoc: "updates_f32 pow p (ds @ [x]) = updateMovement_f32 pow (updates_f32 pow p ds) x"
  by (simp add: updates_f32_def)

lemma updates_f32_idle: "\<not> isMoving q \<Longrightarrow> updates_f32 pow q ds = q"
  by (induction ds) (simp_all add: updates_f32_def updateMovement_f32_def)

lemma updates_f32_append: "updates_f32 pow p (xs @ ys) = updates_f32 pow (updates_f32 pow p xs) ys"
  by (simp add: updates_f32_def)

lemma step_invariant:
  assumes "inTransition p q \<or> q = arrived_f32 p" "0 \<le> \<delta>"
  shows "(inTransition p (updateMovement_f32 pow q \<delta>) \<or> updateMovement_f32 pow q \<delta> = arrived_f32 p) \<and>
         moveProgress q \<le> moveProgress (updateMovement_f32 pow q \<delta>)"
proof (cases "inTransition p q")
  case True
  note s = step_state [OF True assms(2), of pow] and le = step_progress [OF True assms(2)]
  show ?thesis
  proof (cases "1 \<le> f32 (moveProgress q + f32 (MOVE_SPEED * \<delta>))")
    case a: True
    then have "updateMovement_f32 pow q \<delta> = arrived_f32 p" using s by simp
    moreover have "moveProgress q < 1" using True by (simp add: inTransition_def)
    ultimately show ?thesis by (simp add: arrived_f32_def)
  next
    case False
    then show ?thesis using s le by simp
  qed
next
  case False
  then have "q = arrived_f32 p" using assms(1) by simp
  then show ?thesis by (simp add: updateMovement_f32_def arrived_f32_def)
qed

lemma run_invariant:
  assumes "inTransition p p"
  shows "\<forall>\<delta>\<in>set ds. 0 \<le> \<delta> \<Longrightarrow>
         (inTransition p (updates_f32 pow p ds) \<or> updates_f32 pow p ds = arrived_f32 p) \<and>
         (\<forall>i. moveProgress (updates_f32 pow p (take i ds)) \<le> moveProgress (updates_f32 pow p ds))"
proof (induction ds rule: rev_induct)
  case Nil
  show ?case using assms by (simp add: updates_f32_def)
next
  case (snoc x ds)
  have x: "0 \<le> x" and ds: "\<forall>\<delta>\<in>set ds. 0 \<le> \<delta>" using snoc.prems by simp_all
  note IH = snoc.IH [OF ds]
  note st = step_invariant [OF IH [THEN conjunct1] x, of pow]
  have "moveProgress (updates_f32 pow p (take i (ds @ [x]))) \<le> moveProgress (updates_f32 pow p (ds @ [x]))" for i
  proof (cases "i \<le> length ds")
    case True
    then have "moveProgress (updates_f32 pow p (take i (ds @ [x]))) \<le> moveProgress (updates_f32 pow p ds)"
      using IH by simp
    then show ?thesis using st by (simp add: updates_f32_snoc)
  next
    case False
    then show ?thesis by simp
  qed
  then show ?case using st by (simp add: updates_f32_snoc)
qed

lemma inTransition_self:
  "isMoving p \<Longrightarrow> 0 \<le> moveProgress p \<Longrightarrow> moveProgress p < 1 \<Longrightarrow>
   f32 (moveProgress p) = moveProgress p \<Longrightarrow> inTransition p p"
  by (simp add: inTransition_def)

lemma take_Suc_updates:
  "n < length ds \<Longrightarrow>
   updates_f32 pow p (take (Suc n) ds) = updateMovement_f32 pow (updates_f32 pow p (take n ds)) (ds ! n)"
  by (simp add: take_Suc_conv_app_nth updates_f32_snoc)

lemma cellPixel_f32_exact:
  "\<bar>c * TILE_SIZE + tdiv (TILE_SIZE - PLAYER_SIZE) 2\<bar> \<le> 2 ^ 24 \<Longrightarrow>
   cellPixel_f32 c = real_of_int c * real_of_int TILE_SIZE + real_of_int (TILE_SIZE - PLAYER_SIZE) / 2"
  unfolding cellPixel_f32_def by (subst f32_of_int) (simp_all add: tdiv_def game_consts)

lemma updates_f32_moving:
  assumes "inTransition p (updates_f32 pow p ds) \<and> moveProgress (updates_f32 pow p ds) = a"
    "0 \<le> x" "f32 (a + f32 (MOVE_SPEED * x)) = b" "b < 1"
  shows "inTransition p (updates_f32 pow p (ds @ [x])) \<and> moveProgress (updates_f32 pow p (ds @ [x])) = b"
  using step_state [OF assms(1) [THEN conjunct1] assms(2), of pow] assms by (simp add: updates_f32_snoc)

text \<open>
  For frames of 33, 39, 35 and 18 ms the exact progress 8 * 0.125 is 1, but each float
  addition rounds, and after the fourth call the progress is 16777215 / 2^24 =
  0.99999994: the player is still Transitioning.
\<close>

lemma f32_scaled_33: "f32 (8 * (4429185 / 2 ^ 27)) = 4429185 / 2 ^ 24"
  using f32_repr [of 4429185 "- 24"] by (simp add: pow2_def)

lemma f32_scaled_39: "f32 (8 * (10468983 / 2 ^ 28)) = 10468983 / 2 ^ 25"
  using f32_repr [of 10468983 "- 25"] by (simp add: pow2_def)

lemma f32_scaled_35: "f32 (8 * (9395241 / 2 ^ 28)) = 9395241 / 2 ^ 25"
  using f32_repr [of 9395241 "- 25"] by (simp add: pow2_def)

lemma f32_scaled_18: "f32 (8 * (2415919 / 2 ^ 27)) = 2415919 / 2 ^ 24"
  using f32_repr [of 2415919 "- 24"] by (simp add: pow2_def)

lemma prog_step_1: "f32 (0 + f32 (8 * f32 (33 / 1000))) = 4429185 / 2 ^ 24"
  unfolding f32_33ms f32_scaled_33 using f32_fix [OF f32_scaled_33] by simp

lemma prog_step_2: "f32 (4429185 / 2 ^ 24 + f32 (8 * f32 (39 / 1000))) = 2415919 / 2 ^ 22"
  unfolding f32_39ms f32_scaled_39
  by (subst f32_eval [where e = "- 1"]) (simp_all add: pow2_def rne_def Let_def)

lemma prog_step_3: "f32 (2415919 / 2 ^ 22 + f32 (8 * f32 (35 / 1000))) = 897581 / 2 ^ 20"
  unfolding f32_35ms f32_scaled_35
  by (subst f32_eval [where e = "- 1"]) (simp_all add: pow2_def rne_def Let_def)

lemma prog_step_4: "f32 (897581 / 2 ^ 20 + f32 (8 * f32 (18 / 1000))) = 16777215 / 2 ^ 24"
  unfolding f32_18ms f32_scaled_18
  by (subst f32_eval [where e = "- 1"]) (simp_all add: pow2_def rne_def Let_def)

lemma updates_f32_frames_33_39_35_18:
  "MOVE_SPEED * ((33 + 39 + 35 + 18) / 1000) = 1 \<and>
   isMoving (updates_f32 pow (startMove Player_init RIGHT 1 0)
      [f32 (33 / 1000), f32 (39 / 1000), f32 (35 / 1000), f32 (18 / 1000)]) \<and>
   moveProgress (updates_f32 pow (startMove Player_init RIGHT 1 0)
      [f32 (33 / 1000), f32 (39 / 1000), f32 (35 / 1000), f32 (18 / 1000)]) = 16777215 / 2 ^ 24"
proof -
  let ?p = "startMove Player_init RIGHT 1 0"
  let ?S = "updates_f32 pow ?p"
  have nn: "0 \<le> f32 (33 / 1000)" "0 \<le> f32 (39 / 1000)" "0 \<le> f32 (35 / 1000)" "0 \<le> f32 (18 / 1000)"
    by (simp_all add: f32_nonneg)
  have 0: "inTransition ?p (?S []) \<and> moveProgress (?S []) = 0"
    by (simp add: updates_f32_def inTransition_def startMove_def Player_init_def)
  have 1: "inTransition ?p (?S ([] @ [f32 (33 / 1000)])) \<and>
      moveProgress (?S ([] @ [f32 (33 / 1000)])) = 4429185 / 2 ^ 24"
    using 0 nn(1) by (rule updates_f32_moving) (simp_all only: MOVE_SPEED_def prog_step_1, simp)
  have 2: "inTransition ?p (?S (([] @ [f32 (33 / 1000)]) @ [f32 (39 / 1000)])) \<and>
      moveProgress (?S (([] @ [f32 (33 / 1000)]) @ [f32 (39 / 1000)])) = 2415919 / 2 ^ 22"
    using 1 nn(2) by (rule updates_f32_moving) (simp_all only: MOVE_SPEED_def prog_step_2, simp)
  have 3: "inTransition ?p (?S ((([] @ [f32 (33 / 1000)]) @ [f32 (39 / 1000)]) @ [f32 (35 / 1000)])) \<and>
      moveProgress (?S ((([] @ [f32 (33 / 1000)]) @ [f32 (39 / 1000)]) @ [f32 (35 / 1000)])) = 897581 / 2 ^ 20"
    using 2 nn(3) by (rule updates_f32_moving) (simp_all only: MOVE_SPEED_def prog_step_3, simp)
  have 4: "inTransition ?p (?S (((([] @ [f32 (33 / 1000)]) @ [f32 (39 / 1000)]) @ [f32 (35 / 1000)]) @ [f32 (18 / 1000)])) \<and>
      moveProgress (?S (((([] @ [f32 (33 / 1000)]) @ [f32 (39 / 1000)]) @ [f32 (35 / 1000)]) @ [f32 (18 / 1000)])) = 16777215 / 2 ^ 24"
    using 3 nn(4) by (rule updates_f32_moving) (simp_all only: MOVE_SPEED_def prog_step_4, simp)
  have "isMoving (?S [f32 (33 / 1000), f32 (39 / 1000), f32 (35 / 1000), f32 (18 / 1000)])"
    using 4 [THEN conjunct1] by (simp add: inTransition_def)
  moreover have "moveProgress (?S [f32 (33 / 1000), f32 (39 / 1000), f32 (35 / 1000), f32 (18 / 1000)]) = 16777215 / 2 ^ 24"
    using 4 [THEN conjunct2] by simp
  ultimately show ?thesis by (simp add: MOVE_SPEED_def)
qed

lemma updates_f32_frames_sum:
  "MOVE_SPEED * sum_list [f32 (33 / 1000), f32 (39 / 1000), f32 (35 / 1000), f32 (18 / 1000)] = 1"
  unfolding f32_33ms f32_39ms f32_35ms f32_18ms by (simp add: MOVE_SPEED_def)

lemma f32_half: "f32 (1 / 2) = 1 / 2"
  using f32_repr [of 1 "- 1"] by (simp add: pow2_def)

lemma f32_8000: "f32 8000 = 8000"
  using f32_of_int [of 8000] by simp

lemma f32_16001_half: "f32 (16001 / 2) = 16001 / 2"
  using f32_repr [of 16001 "- 1"] by (simp add: pow2_def)

text \<open>
  Claim C3. For a Transitioning player (moving, with a float progress in [0, 1)) and
  non-negative time deltas of any size, in binary32: the progress never decreases along
  the calls of updateMovement; a call whose accumulated progress, the rounded sum the call
  assigns to the progress scalar, stays below 1 leaves the player Transitioning with that
  progress; and at the first call where it reaches or exceeds 1 the player becomes Idle at
  the target cell, with the pixel position the canonical position of that cell (exactly
  cell index * TILE_SIZE + (TILE_SIZE - PLAYER_SIZE) / 2 for every cell whose pixel
  coordinate is below 2^24) and the progress exactly 1, and every later call leaves it
  so. The theorem holds for every C library \<open>pow\<close>.
\<close>

theorem updateMovement_progress:
  assumes "isMoving p" "0 \<le> moveProgress p" "moveProgress p < 1"
    "f32 (moveProgress p) = moveProgress p" "\<forall>\<delta>\<in>set ds. 0 \<le> \<delta>"
  shows "(\<forall>i j. i \<le> j \<and> j \<le> length ds \<longrightarrow>
            moveProgress (updates_f32 pow p (take i ds)) \<le> moveProgress (updates_f32 pow p (take j ds))) \<and>
         (\<forall>n. n < length ds \<and> isMoving (updates_f32 pow p (take n ds)) \<and>
            f32 (moveProgress (updates_f32 pow p (take n ds)) + f32 (MOVE_SPEED * ds ! n)) < 1 \<longrightarrow>
            isMoving (updates_f32 pow p (take (Suc n) ds)) \<and>
            moveProgress (updates_f32 pow p (take (Suc n) ds)) =
              f32 (moveProgress (updates_f32 pow p (take n ds)) + f32 (MOVE_SPEED * ds ! n))) \<and>
         (\<forall>n m. n < length ds \<and> isMoving (updates_f32 pow p (take n ds)) \<and>
            1 \<le> f32 (moveProgress (updates_f32 pow p (take n ds)) + f32 (MOVE_SPEED * ds ! n)) \<and>
            Suc n \<le> m \<and> m \<le> length ds \<longrightarrow>
            \<not> isMoving (updates_f32 pow p (take m ds)) \<and>
            movingDirection (updates_f32 pow p (take m ds)) = NONE \<and>
            gridX (updates_f32 pow p (take m ds)) = targetGridX p \<and>
            gridY (updates_f32 pow p (take m ds)) = targetGridY p \<and>
            targetGridX (updates_f32 pow p (take m ds)) = targetGridX p \<and>
            targetGridY (updates_f32 pow p (take m ds)) = targetGridY p \<and>
            pixelX (updates_f32 pow p (take m ds)) = cellPixel_f32 (targetGridX p) \<and>
            pixelY (updates_f32 pow p (take m ds)) = cellPixel_f32 (targetGridY p) \<and>
            moveProgress (updates_f32 pow p (take m ds)) = 1) \<and>
         (\<bar>targetGridX p * TILE_SIZE + tdiv (TILE_SIZE - PLAYER_SIZE) 2\<bar> \<le> 2 ^ 24 \<longrightarrow>
            cellPixel_f32 (targetGridX p) =
              real_of_int (targetGridX p) * real_of_int TILE_SIZE + real_of_int (TILE_SIZE - PLAYER_SIZE) / 2) \<and>
         (\<bar>targetGridY p * TILE_SIZE + tdiv (TILE_SIZE - PLAYER_SIZE) 2\<bar> \<le> 2 ^ 24 \<longrightarrow>
            cellPixel_f32 (targetGridY p) =
              real_of_int (targetGridY p) * real_of_int TILE_SIZE + real_of_int (TILE_SIZE - PLAYER_SIZE) / 2)"
proof -
  have self: "inTransition p p" using assms(1-4) by (rule inTransition_self)
  have nn: "\<forall>\<delta>\<in>set (take k ds). 0 \<le> \<delta>" for k
    using assms(5) by (auto dest: in_set_takeD)
  have inv: "inTransition p (updates_f32 pow p (take k ds)) \<or> updates_f32 pow p (take k ds) = arrived_f32 p" for k
    using run_invariant [OF self nn [of k], where pow = pow] by simp
  have moving: "inTransition p (updates_f32 pow p (take k ds))" if "isMoving (updates_f32 pow p (take k ds))" for k
    using inv [of k] that by (auto simp add: arrived_f32_def)
  have A: "moveProgress (updates_f32 pow p (take i ds)) \<le> moveProgress (updates_f32 pow p (take j ds))"
    if "i \<le> j \<and> j \<le> length ds" for i j
  proof -
    have "moveProgress (updates_f32 pow p (take i (take j ds))) \<le> moveProgress (updates_f32 pow p (take j ds))"
      using run_invariant [OF self nn [of j], where pow = pow] by simp
    then show ?thesis using that by (simp add: min.absorb1)
  qed
  have B: "isMoving (updates_f32 pow p (take (Suc n) ds)) \<and>
            moveProgress (updates_f32 pow p (take (Suc n) ds)) =
              f32 (moveProgress (updates_f32 pow p (take n ds)) + f32 (MOVE_SPEED * ds ! n))"
    if h: "n < length ds \<and> isMoving (updates_f32 pow p (take n ds)) \<and>
            f32 (moveProgress (updates_f32 pow p (take n ds)) + f32 (MOVE_SPEED * ds ! n)) < 1" for n
  proof -
    have d: "0 \<le> ds ! n" using assms(5) h by simp
    show ?thesis
      using step_state [OF moving d, of n pow] h
      by (simp add: take_Suc_updates inTransition_def)
  qed
  have C: "updates_f32 pow p (take m ds) = arrived_f32 p"
    if h: "n < length ds \<and> isMoving (updates_f32 pow p (take n ds)) \<and>
            1 \<le> f32 (moveProgress (updates_f32 pow p (take n ds)) + f32 (MOVE_SPEED * ds ! n)) \<and>
            Suc n \<le> m \<and> m \<le> length ds" for n m
  proof -
    have d: "0 \<le> ds ! n" using assms(5) h by simp
    have s: "updates_f32 pow p (take (Suc n) ds) = arrived_f32 p"
      using step_state [OF moving d, of n pow] h by (simp add: take_Suc_updates)
    have "take m ds = take (Suc n) ds @ drop (Suc n) (take m ds)"
      using h by (metis append_take_drop_id min.absorb1 take_take)
    then have "updates_f32 pow p (take m ds) =
        updates_f32 pow (updates_f32 pow p (take (Suc n) ds)) (drop (Suc n) (take m ds))"
      by (metis updates_f32_append)
    then show ?thesis unfolding s by (simp add: updates_f32_idle arrived_f32_def)
  qed
  show ?thesis
  proof (intro conjI allI impI)
    fix i j assume "i \<le> j \<and> j \<le> length ds"
    then show "moveProgress (updates_f32 pow p (take i ds)) \<le> moveProgress (updates_f32 pow p (take j ds))"
      by (rule A)
  next
    fix n
    assume h: "n < length ds \<and> isMoving (updates_f32 pow p (take n ds)) \<and>
            f32 (moveProgress (updates_f32 pow p (take n ds)) + f32 (MOVE_SPEED * ds ! n)) < 1"
    show "isMoving (updates_f32 pow p (take (Suc n) ds))" using B [OF h] by simp
    show "moveProgress (updates_f32 pow p (take (Suc n) ds)) =
              f32 (moveProgress (updates_f32 pow p (take n ds)) + f32 (MOVE_SPEED * ds ! n))"
      using B [OF h] by simp
  next
    fix n m
    assume h: "n < length ds \<and> isMoving (updates_f32 pow p (take n ds)) \<and>
            1 \<le> f32 (moveProgress (updates_f32 pow p (take n ds)) + f32 (MOVE_SPEED * ds ! n)) \<and>
            Suc n \<le> m \<and> m \<le> length ds"
    note c = C [OF h]
    show "\<not> isMoving (updates_f32 pow p (take m ds))" by (simp add: c arrived_f32_def)
    show "movingDirection (updates_f32 pow p (take m ds)) = NONE" by (simp add: c arrived_f32_def)
    show "gridX (updates_f32 pow p (take m ds)) = targetGridX p" by (simp add: c arrived_f32_def)
    show "gridY (updates_f32 pow p (take m ds)) = targetGridY p" by (simp add: c arrived_f32_def)
    show "targetGridX (updates_f32 pow p (take m ds)) = targetGridX p" by (simp add: c arrived_f32_def)
    show "targetGridY (updates_f32 pow p (take m ds)) = targetGridY p" by (simp add: c arrived_f32_def)
    show "pixelX (updates_f32 pow p (take m ds)) = cellPixel_f32 (targetGridX p)" by (simp add: c arrived_f32_def)
    show "pixelY (updates_f32 pow p (take m ds)) = cellPixel_f32 (targetGridY p)" by (simp add: c arrived_f32_def)
    show "moveProgress (updates_f32 pow p (take m ds)) = 1" by (simp add: c arrived_f32_def)
  next
    assume "\<bar>targetGridX p * TILE_SIZE + tdiv (TILE_SIZE - PLAYER_SIZE) 2\<bar> \<le> 2 ^ 24"
    then show "cellPixel_f32 (targetGridX p) =
        real_of_int (targetGridX p) * real_of_int TILE_SIZE + real_of_int (TILE_SIZE - PLAYER_SIZE) / 2"
      by (rule cellPixel_f32_exact)
  next
    assume "\<bar>targetGridY p * TILE_SIZE + tdiv (TILE_SIZE - PLAYER_SIZE) 2\<bar> \<le> 2 ^ 24"
    then show "cellPixel_f32 (targetGridY p) =
        real_of_int (targetGridY p) * real_of_int TILE_SIZE + real_of_int (TILE_SIZE - PLAYER_SIZE) / 2"
      by (rule cellPixel_f32_exact)
  qed
qed

theorem updateMovement_progress_witness:
  "isMoving (startMove Player_init RIGHT 1 0) \<and> 0 \<le> moveProgress (startMove Player_init RIGHT 1 0) \<and>
   moveProgress (startMove Player_init RIGHT 1 0) < 1 \<and>
   f32 (moveProgress (startMove Player_init RIGHT 1 0)) = moveProgress (startMove Player_init RIGHT 1 0) \<and>
   isMoving (updates_f32 (\<lambda>x y. x powr y) (startMove Player_init RIGHT 1 0) (take 1 [1 / 16, 1000, 1 / 16])) \<and>
   moveProgress (updates_f32 (\<lambda>x y. x powr y) (startMove Player_init RIGHT 1 0) (take 1 [1 / 16, 1000, 1 / 16])) = 1 / 2 \<and>
   1 \<le> f32 (1 / 2 + f32 (MOVE_SPEED * 1000)) \<and>
   moveProgress (updates_f32 (\<lambda>x y. x powr y) (startMove Player_init RIGHT 1 0) (take 1 [1 / 16, 1000, 1 / 16]))
     \<le> moveProgress (updates_f32 (\<lambda>x y. x powr y) (startMove Player_init RIGHT 1 0) (take 2 [1 / 16, 1000, 1 / 16])) \<and>
   \<not> isMoving (updates_f32 (\<lambda>x y. x powr y) (startMove Player_init RIGHT 1 0) (take 3 [1 / 16, 1000, 1 / 16])) \<and>
   gridX (updates_f32 (\<lambda>x y. x powr y) (startMove Player_init RIGHT 1 0) (take 3 [1 / 16, 1000, 1 / 16])) = 1 \<and>
   pixelX (updates_f32 (\<lambda>x y. x powr y) (startMove Player_init RIGHT 1 0) (take 3 [1 / 16, 1000, 1 / 16])) = 45 \<and>
   moveProgress (updates_f32 (\<lambda>x y. x powr y) (startMove Player_init RIGHT 1 0) (take 3 [1 / 16, 1000, 1 / 16])) = 1"
proof -
  let ?p = "startMove Player_init RIGHT 1 0"
  let ?ds = "[1 / 16, 1000, 1 / 16] :: real list"
  let ?S = "updates_f32 (\<lambda>x y. x powr y) ?p"
  have h: "isMoving ?p" "0 \<le> moveProgress ?p" "moveProgress ?p < 1"
    "f32 (moveProgress ?p) = moveProgress ?p" "\<forall>\<delta>\<in>set ?ds. 0 \<le> \<delta>"
    by (simp_all add: startMove_def Player_init_def)
  note T = updateMovement_progress [OF h, of "\<lambda>x y. x powr y"]
  have t: "targetGridX ?p = 1" "moveProgress ?p = 0" by (simp_all add: startMove_def)
  have s0: "?S (take 0 ?ds) = ?p" by (simp add: updates_f32_def)
  have a1: "f32 (moveProgress (?S (take 0 ?ds)) + f32 (MOVE_SPEED * ?ds ! 0)) = 1 / 2"
    unfolding s0 t by (simp add: MOVE_SPEED_def f32_half)
  have one: "isMoving (?S (take (Suc 0) ?ds)) \<and> moveProgress (?S (take (Suc 0) ?ds)) = 1 / 2"
    using T [THEN conjunct2, THEN conjunct1, rule_format, of 0] a1 h(1) s0 by simp
  have a2: "1 \<le> f32 (1 / 2 + f32 (MOVE_SPEED * 1000))"
    by (simp add: MOVE_SPEED_def f32_8000 f32_16001_half)
  have m: "moveProgress (?S (take 1 ?ds)) \<le> moveProgress (?S (take 2 ?ds))"
    using T [THEN conjunct1, rule_format, of 1 2] by simp
  have three: "\<not> isMoving (?S (take 3 ?ds)) \<and> gridX (?S (take 3 ?ds)) = targetGridX ?p \<and>
      pixelX (?S (take 3 ?ds)) = cellPixel_f32 (targetGridX ?p) \<and> moveProgress (?S (take 3 ?ds)) = 1"
    using T [THEN conjunct2, THEN conjunct2, THEN conjunct1, rule_format, of "Suc 0" 3] one a2
    by (simp del: take_Suc_Cons take_Cons_numeral)
  have px: "cellPixel_f32 (targetGridX ?p) = 45"
    using T [THEN conjunct2, THEN conjunct2, THEN conjunct2, THEN conjunct1] unfolding t
    by (simp add: tdiv_def game_consts)
  have one': "isMoving (?S (take 1 ?ds)) \<and> moveProgress (?S (take 1 ?ds)) = 1 / 2"
    using one by simp
  show ?thesis
    using h(1-4) one' a2 m three px t(1) by (simp del: take_Suc_Cons take_Cons_numeral)
qed

section \<open>Input timing\<close>





lemma INPUT_BUFFER_TIME_f32_value: "INPUT_BUFFER_TIME_f32 = 5033165 / 2 ^ 25"
  unfolding INPUT_BUFFER_TIME_f32_def
  by (subst f32_eval [where e = "- 3"]) (simp_all add: pow2_def rne_def Let_def)

lemma updateInputTiming_f32_below:
  assumes "d \<noteq> NONE" "lastInputDirection p = d \<and> \<not> continuousMoveEnabled p \<and> inputHoldTime p = a"
    "f32 (a + x) = b" "b < INPUT_BUFFER_TIME_f32"
  shows "lastInputDirection (updateInputTiming_f32 p d x) = d \<and>
         \<not> continuousMoveEnabled (updateInputTiming_f32 p d x) \<and>
         inputHoldTime (updateInputTiming_f32 p d x) = b"
  using assms by (simp add: updateInputTiming_f32_def Let_def)

lemma hold_step_1: "f32 (0 + f32 (40 / 1000)) = 5368709 / 2 ^ 27"
  using f32_fix [OF f32_40ms] by (simp only: add_0 f32_40ms)

lemma hold_step_2: "f32 (5368709 / 2 ^ 27 + f32 (38 / 1000)) = 5234491 / 2 ^ 26"
  unfolding f32_38ms
  by (subst f32_eval [where e = "- 4"]) (simp_all add: pow2_def rne_def Let_def)

lemma hold_step_3: "f32 (5234491 / 2 ^ 26 + f32 (16 / 1000)) = 6308233 / 2 ^ 26"
  unfolding f32_16ms
  by (subst f32_eval [where e = "- 4"]) (simp_all add: pow2_def rne_def Let_def)

lemma hold_step_4: "f32 (6308233 / 2 ^ 26 + f32 (34 / 1000)) = 4294967 / 2 ^ 25"
  unfolding f32_34ms
  by (subst f32_eval [where e = "- 3"]) (simp_all add: pow2_def rne_def Let_def)

lemma hold_step_5: "f32 (4294967 / 2 ^ 25 + f32 (22 / 1000)) = 10066329 / 2 ^ 26"
  unfolding f32_22ms
  by (subst f32_eval [where e = "- 3"]) (simp_all add: pow2_def rne_def Let_def)

text \<open>
  For frames of 40, 38, 16, 34 and 22 ms after the call that recorded the direction, the
  deltas add up to 0.15 s and more in exact arithmetic, but the hold time the float
  additions accumulate is 10066329 / 2^26 = 0.14999999, below \<^verbatim>\<open>0.15f\<close>:
  continuous-enabled is still false.
\<close>

lemma holdDirection_f32_frames_40_38_16_34_22:
  "15 / 100 \<le> sum_list [f32 (40 / 1000), f32 (38 / 1000), f32 (16 / 1000), f32 (34 / 1000), f32 (22 / 1000)] \<and>
   \<not> continuousMoveEnabled (holdDirection_f32 (updateInputTiming_f32 Player_init RIGHT (1 / 64)) RIGHT
      [f32 (40 / 1000), f32 (38 / 1000), f32 (16 / 1000), f32 (34 / 1000), f32 (22 / 1000)]) \<and>
   inputHoldTime (holdDirection_f32 (updateInputTiming_f32 Player_init RIGHT (1 / 64)) RIGHT
      [f32 (40 / 1000), f32 (38 / 1000), f32 (16 / 1000), f32 (34 / 1000), f32 (22 / 1000)]) = 10066329 / 2 ^ 26"
proof -
  let ?p = "updateInputTiming_f32 Player_init RIGHT (1 / 64)"
  have r: "RIGHT \<noteq> NONE" by (simp add: dir_consts)
  have 0: "lastInputDirection ?p = RIGHT \<and> \<not> continuousMoveEnabled ?p \<and> inputHoldTime ?p = 0"
    by (simp add: updateInputTiming_f32_def Player_init_def dir_consts)
  define q1 where "q1 = updateInputTiming_f32 ?p RIGHT (f32 (40 / 1000))"
  define q2 where "q2 = updateInputTiming_f32 q1 RIGHT (f32 (38 / 1000))"
  define q3 where "q3 = updateInputTiming_f32 q2 RIGHT (f32 (16 / 1000))"
  define q4 where "q4 = updateInputTiming_f32 q3 RIGHT (f32 (34 / 1000))"
  define q5 where "q5 = updateInputTiming_f32 q4 RIGHT (f32 (22 / 1000))"
  have 1: "lastInputDirection q1 = RIGHT \<and> \<not> continuousMoveEnabled q1 \<and> inputHoldTime q1 = 5368709 / 2 ^ 27"
    unfolding q1_def using r 0 hold_step_1 by (rule updateInputTiming_f32_below) (simp add: INPUT_BUFFER_TIME_f32_value)
  have 2: "lastInputDirection q2 = RIGHT \<and> \<not> continuousMoveEnabled q2 \<and> inputHoldTime q2 = 5234491 / 2 ^ 26"
    unfolding q2_def using r 1 hold_step_2 by (rule updateInputTiming_f32_below) (simp add: INPUT_BUFFER_TIME_f32_value)
  have 3: "lastInputDirection q3 = RIGHT \<and> \<not> continuousMoveEnabled q3 \<and> inputHoldTime q3 = 6308233 / 2 ^ 26"
    unfolding q3_def using r 2 hold_step_3 by (rule updateInputTiming_f32_below) (simp add: INPUT_BUFFER_TIME_f32_value)
  have 4: "lastInputDirection q4 = RIGHT \<and> \<not> continuousMoveEnabled q4 \<and> inputHoldTime q4 = 4294967 / 2 ^ 25"
    unfolding q4_def using r 3 hold_step_4 by (rule updateInputTiming_f32_below) (simp add: INPUT_BUFFER_TIME_f32_value)
  have 5: "lastInputDirection q5 = RIGHT \<and> \<not> continuousMoveEnabled q5 \<and> inputHoldTime q5 = 10066329 / 2 ^ 26"
    unfolding q5_def using r 4 hold_step_5 by (rule updateInputTiming_f32_below) (simp add: INPUT_BUFFER_TIME_f32_value)
  have run: "holdDirection_f32 ?p RIGHT
      [f32 (40 / 1000), f32 (38 / 1000), f32 (16 / 1000), f32 (34 / 1000), f32 (22 / 1000)] = q5"
    by (simp only: holdDirection_f32_def foldl.simps q1_def q2_def q3_def q4_def q5_def)
  have sum: "15 / 100 \<le> sum_list [f32 (40 / 1000), f32 (38 / 1000), f32 (16 / 1000), f32 (34 / 1000), f32 (22 / 1000)]"
    unfolding f32_40ms f32_38ms f32_16ms f32_34ms f32_22ms by simp
  show ?thesis unfolding run using 5 sum by simp
qed





section \<open>The grid and the carving functions\<close>

lemma wfGrid_setCell:
  assumes "wfGrid g"
  shows "wfGrid (setCell g x y v)"
proof (cases "nat y < length g")
  case True
  then have "length ((g ! nat y)[nat x := v]) = nat DUNGEON_WIDTH"
    using assms by (simp add: wfGrid_def)
  then show ?thesis
    using assms set_update_subset_insert [of g "nat y" "(g ! nat y)[nat x := v]"]
    by (auto simp add: wfGrid_def setCell_def)
next
  case False
  then have "setCell g x y v = g" by (simp add: setCell_def list_update_beyond)
  then show ?thesis using assms by simp
qed

lemma getCell_setCell:
  assumes "wfGrid g" "inDungeon x y" "inDungeon cx cy"
  shows "getCell (setCell g x y v) cx cy = (if cx = x \<and> cy = y then v else getCell g cx cy)"
proof -
  have len: "nat y < length g" "nat cy < length g"
    using assms by (simp_all add: wfGrid_def inDungeon_def)
  then have row: "nat x < length (g ! nat y)"
    using assms by (simp add: wfGrid_def inDungeon_def)
  have eq: "nat cy = nat y \<longleftrightarrow> cy = y" "nat cx = nat x \<longleftrightarrow> cx = x"
    using assms by (auto simp add: inDungeon_def)
  show ?thesis
    using len row eq by (auto simp add: getCell_def setCell_def nth_list_update)
qed

lemma wfGrid_wallGrid: "wfGrid wallGrid"
  by (simp add: wfGrid_def wallGrid_def)

lemma getCell_wallGrid: "inDungeon x y \<Longrightarrow> getCell wallGrid x y = WALL"
  by (simp add: getCell_def wallGrid_def inDungeon_def)

lemma carveH_loop:
  "wfGrid g \<Longrightarrow> wfGrid (carveHorizontalCorridor_loop g x endX y) \<and>
   (inDungeon cx cy \<longrightarrow> getCell (carveHorizontalCorridor_loop g x endX y) cx cy =
     (if cy = y \<and> x \<le> cx \<and> cx \<le> endX \<and> getCell g cx cy = WALL then CORRIDOR else getCell g cx cy))"
proof (induction g x endX y rule: carveHorizontalCorridor_loop.induct)
  case (1 g x endX y)
  show ?case
  proof (cases "x \<le> endX")
    case False
    then show ?thesis using "1.prems" by (subst (1 2) carveHorizontalCorridor_loop.simps) auto
  next
    case True
    let ?g' = "if x \<ge> 0 \<and> x < DUNGEON_WIDTH \<and> y \<ge> 0 \<and> y < DUNGEON_HEIGHT
              then (if getCell g x y = WALL then setCell g x y CORRIDOR else g) else g"
    have wf': "wfGrid ?g'" using "1.prems" by (simp add: wfGrid_setCell)
    have cell': "inDungeon cx cy \<Longrightarrow> getCell ?g' cx cy =
        (if cx = x \<and> cy = y \<and> getCell g cx cy = WALL then CORRIDOR else getCell g cx cy)"
      using "1.prems" by (auto simp add: getCell_setCell inDungeon_def)
    have step: "carveHorizontalCorridor_loop g x endX y = carveHorizontalCorridor_loop ?g' (x + 1) endX y"
      using True by (subst carveHorizontalCorridor_loop.simps) simp
    from "1.IH" [OF True wf'] cell' True show ?thesis
      unfolding step by auto
  qed
qed

lemma carveV_loop:
  "wfGrid g \<Longrightarrow> wfGrid (carveVerticalCorridor_loop g y endY x) \<and>
   (inDungeon cx cy \<longrightarrow> getCell (carveVerticalCorridor_loop g y endY x) cx cy =
     (if cx = x \<and> y \<le> cy \<and> cy \<le> endY \<and> getCell g cx cy = WALL then CORRIDOR else getCell g cx cy))"
proof (induction g y endY x rule: carveVerticalCorridor_loop.induct)
  case (1 g y endY x)
  show ?case
  proof (cases "y \<le> endY")
    case False
    then show ?thesis using "1.prems" by (subst (1 2) carveVerticalCorridor_loop.simps) auto
  next
    case True
    let ?g' = "if x \<ge> 0 \<and> x < DUNGEON_WIDTH \<and> y \<ge> 0 \<and> y < DUNGEON_HEIGHT
              then (if getCell g x y = WALL then setCell g x y CORRIDOR else g) else g"
    have wf': "wfGrid ?g'" using "1.prems" by (simp add: wfGrid_setCell)
    have cell': "inDungeon cx cy \<Longrightarrow> getCell ?g' cx cy =
        (if cx = x \<and> cy = y \<and> getCell g cx cy = WALL then CORRIDOR else getCell g cx cy)"
      using "1.prems" by (auto simp add: getCell_setCell inDungeon_def)
    have step: "carveVerticalCorridor_loop g y endY x = carveVerticalCorridor_loop ?g' (y + 1) endY x"
      using True by (subst carveVerticalCorridor_loop.simps) simp
    from "1.IH" [OF True wf'] cell' True show ?thesis
      unfolding step by auto
  qed
qed

lemma carveRoom_row_cell:
  "wfGrid g \<Longrightarrow> wfGrid (carveRoom_row g room y x) \<and>
   (inDungeon cx cy \<longrightarrow> getCell (carveRoom_row g room y x) cx cy =
     (if cy = y \<and> x \<le> cx \<and> cx < room_x room + room_width room then FLOOR else getCell g cx cy))"
proof (induction g room y x rule: carveRoom_row.induct)
  case (1 g room y x)
  show ?case
  proof (cases "x < room_x room + room_width room")
    case False
    then show ?thesis using "1.prems" by (subst (1 2) carveRoom_row.simps) auto
  next
    case True
    let ?g' = "if y \<ge> 0 \<and> y < DUNGEON_HEIGHT \<and> x \<ge> 0 \<and> x < DUNGEON_WIDTH
              then setCell g x y FLOOR else g"
    have wf': "wfGrid ?g'" using "1.prems" by (simp add: wfGrid_setCell)
    have cell': "inDungeon cx cy \<Longrightarrow> getCell ?g' cx cy =
        (if cx = x \<and> cy = y then FLOOR else getCell g cx cy)"
      using "1.prems" by (auto simp add: getCell_setCell inDungeon_def)
    have step: "carveRoom_row g room y x = carveRoom_row ?g' room y (x + 1)"
      using True by (subst carveRoom_row.simps) simp
    from "1.IH" [OF True wf'] cell' True show ?thesis
      unfolding step by auto
  qed
qed

lemma carveRoom_rows_cell:
  "wfGrid g \<Longrightarrow> wfGrid (carveRoom_rows g room y) \<and>
   (inDungeon cx cy \<longrightarrow> getCell (carveRoom_rows g room y) cx cy =
     (if y \<le> cy \<and> cy < room_y room + room_height room \<and>
         room_x room \<le> cx \<and> cx < room_x room + room_width room then FLOOR else getCell g cx cy))"
proof (induction g room y rule: carveRoom_rows.induct)
  case (1 g room y)
  show ?case
  proof (cases "y < room_y room + room_height room")
    case False
    then show ?thesis using "1.prems" by (subst (1 2) carveRoom_rows.simps) auto
  next
    case True
    let ?g' = "carveRoom_row g room y (room_x room)"
    have wf': "wfGrid ?g'" using "1.prems" carveRoom_row_cell by blast
    have cell': "inDungeon cx cy \<Longrightarrow> getCell ?g' cx cy =
        (if cy = y \<and> room_x room \<le> cx \<and> cx < room_x room + room_width room then FLOOR else getCell g cx cy)"
      using "1.prems" carveRoom_row_cell by blast
    have step: "carveRoom_rows g room y = carveRoom_rows ?g' room (y + 1)"
      using True by (subst carveRoom_rows.simps) simp
    from "1.IH" [OF True wf'] cell' True show ?thesis
      unfolding step by auto
  qed
qed

lemma carveHorizontalCorridor_cell:
  assumes "wfGrid g"
  shows "wfGrid (carveHorizontalCorridor g x1 x2 y)"
    and "inDungeon cx cy \<Longrightarrow> getCell (carveHorizontalCorridor g x1 x2 y) cx cy =
      (if cy = y \<and> min x1 x2 \<le> cx \<and> cx \<le> max x1 x2 \<and> getCell g cx cy = WALL
       then CORRIDOR else getCell g cx cy)"
  using carveH_loop [OF assms, of "min x1 x2" "max x1 x2" y cx cy]
  by (simp_all add: carveHorizontalCorridor_def Let_def)

lemma carveVerticalCorridor_cell:
  assumes "wfGrid g"
  shows "wfGrid (carveVerticalCorridor g y1 y2 x)"
    and "inDungeon cx cy \<Longrightarrow> getCell (carveVerticalCorridor g y1 y2 x) cx cy =
      (if cx = x \<and> min y1 y2 \<le> cy \<and> cy \<le> max y1 y2 \<and> getCell g cx cy = WALL
       then CORRIDOR else getCell g cx cy)"
  using carveV_loop [OF assms, of "min y1 y2" "max y1 y2" x cx cy]
  by (simp_all add: carveVerticalCorridor_def Let_def)

lemma carveRoom_cell:
  assumes "wfGrid g"
  shows "wfGrid (carveRoom g room)"
    and "inDungeon cx cy \<Longrightarrow> getCell (carveRoom g room) cx cy =
      (if (cx, cy) \<in> roomCells room then FLOOR else getCell g cx cy)"
  using carveRoom_rows_cell [OF assms, of room "room_y room" cx cy]
  by (simp_all add: carveRoom_def roomCells_def)

lemma wfGrid_oneRoomGrid: "wfGrid oneRoomGrid"
  unfolding oneRoomGrid_def using wfGrid_wallGrid by (rule carveRoom_cell)

lemma getCell_oneRoomGrid:
  "inDungeon cx cy \<Longrightarrow> getCell oneRoomGrid cx cy = (if (cx, cy) \<in> roomCells oneRoom then FLOOR else WALL)"
  by (simp add: oneRoomGrid_def carveRoom_cell wfGrid_wallGrid getCell_wallGrid)

text \<open>
  Claim C6. Both corridor functions change only cells whose kind is Wall, and set them
  to Corridor: a cell of the carved segment that is Wall becomes Corridor, every other
  cell (a Floor cell in particular, and every cell off the segment) keeps its kind, and
  the array keeps its shape.
\<close>

theorem corridor_carving_frame:
  assumes "wfGrid g" "inDungeon cx cy"
  shows "getCell (carveHorizontalCorridor g x1 x2 y) cx cy =
           (if cy = y \<and> min x1 x2 \<le> cx \<and> cx \<le> max x1 x2 \<and> getCell g cx cy = WALL
            then CORRIDOR else getCell g cx cy) \<and>
         getCell (carveVerticalCorridor g y1 y2 x) cx cy =
           (if cx = x \<and> min y1 y2 \<le> cy \<and> cy \<le> max y1 y2 \<and> getCell g cx cy = WALL
            then CORRIDOR else getCell g cx cy) \<and>
         (getCell g cx cy = FLOOR \<longrightarrow>
            getCell (carveHorizontalCorridor g x1 x2 y) cx cy = FLOOR \<and>
            getCell (carveVerticalCorridor g y1 y2 x) cx cy = FLOOR) \<and>
         (getCell (carveHorizontalCorridor g x1 x2 y) cx cy \<noteq> getCell g cx cy \<longrightarrow>
            getCell g cx cy = WALL \<and> getCell (carveHorizontalCorridor g x1 x2 y) cx cy = CORRIDOR \<and>
            cy = y \<and> min x1 x2 \<le> cx \<and> cx \<le> max x1 x2) \<and>
         (getCell (carveVerticalCorridor g y1 y2 x) cx cy \<noteq> getCell g cx cy \<longrightarrow>
            getCell g cx cy = WALL \<and> getCell (carveVerticalCorridor g y1 y2 x) cx cy = CORRIDOR \<and>
            cx = x \<and> min y1 y2 \<le> cy \<and> cy \<le> max y1 y2) \<and>
         wfGrid (carveHorizontalCorridor g x1 x2 y) \<and> wfGrid (carveVerticalCorridor g y1 y2 x)"
proof -
  have H: "getCell (carveHorizontalCorridor g x1 x2 y) cx cy =
           (if cy = y \<and> min x1 x2 \<le> cx \<and> cx \<le> max x1 x2 \<and> getCell g cx cy = WALL
            then CORRIDOR else getCell g cx cy)"
    using assms by (rule carveHorizontalCorridor_cell)
  have V: "getCell (carveVerticalCorridor g y1 y2 x) cx cy =
           (if cx = x \<and> min y1 y2 \<le> cy \<and> cy \<le> max y1 y2 \<and> getCell g cx cy = WALL
            then CORRIDOR else getCell g cx cy)"
    using assms by (rule carveVerticalCorridor_cell)
  have W: "wfGrid (carveHorizontalCorridor g x1 x2 y)" "wfGrid (carveVerticalCorridor g y1 y2 x)"
    using assms(1) by (rule carveHorizontalCorridor_cell carveVerticalCorridor_cell)+
  show ?thesis
    unfolding H V using W by auto
qed

theorem corridor_carving_frame_witness:
  "wfGrid oneRoomGrid \<and> inDungeon 3 3 \<and> inDungeon 7 3 \<and>
   getCell oneRoomGrid 3 3 = FLOOR \<and> getCell oneRoomGrid 7 3 = WALL \<and>
   getCell (carveHorizontalCorridor oneRoomGrid 9 0 3) 3 3 = FLOOR \<and>
   getCell (carveHorizontalCorridor oneRoomGrid 9 0 3) 7 3 = CORRIDOR \<and>
   getCell (carveVerticalCorridor oneRoomGrid 0 9 3) 3 3 = FLOOR \<and>
   getCell (carveVerticalCorridor oneRoomGrid 0 9 7) 7 3 = CORRIDOR \<and>
   getCell (carveVerticalCorridor oneRoomGrid 0 9 7) 7 10 = WALL"
proof -
  have in1: "inDungeon 3 3" "inDungeon 7 3" "inDungeon 7 10" by (simp_all add: inDungeon_def game_consts)
  have c: "getCell oneRoomGrid 3 3 = FLOOR" "getCell oneRoomGrid 7 3 = WALL" "getCell oneRoomGrid 7 10 = WALL"
    using in1 by (simp_all add: getCell_oneRoomGrid roomCells_def oneRoom_def)
  show ?thesis
    using corridor_carving_frame [OF wfGrid_oneRoomGrid in1(1), of 9 0 3 0 9 3]
      corridor_carving_frame [OF wfGrid_oneRoomGrid in1(2), of 9 0 3 0 9 7]
      corridor_carving_frame [OF wfGrid_oneRoomGrid in1(3), of 9 0 3 0 9 7]
      wfGrid_oneRoomGrid in1 c
    by simp
qed

section \<open>Walkability query\<close>

lemma readCell_wf:
  "wfGrid g \<Longrightarrow> 0 \<le> x \<Longrightarrow> x < DUNGEON_WIDTH \<Longrightarrow> 0 \<le> y \<Longrightarrow> y < DUNGEON_HEIGHT \<Longrightarrow>
   readCell g x y = Some (getCell g x y)"
  by (auto simp add: wfGrid_def readCell_def getCell_def)

text \<open>
  Claim C8. On the dungeon array, isWalkable returns false for a coordinate outside
  [0, DUNGEON_WIDTH) x [0, DUNGEON_HEIGHT), and for a coordinate inside it returns true
  exactly when the cell is not Wall. The result is never \<open>None\<close>, which the model
  returns for a read outside the array, and the query returns nothing but the answer: it
  has no grid to hand back.
\<close>

theorem isWalkable_spec:
  "wfGrid g \<Longrightarrow>
   isWalkable g x y =
     Some (0 \<le> x \<and> x < DUNGEON_WIDTH \<and> 0 \<le> y \<and> y < DUNGEON_HEIGHT \<and> getCell g x y \<noteq> WALL)"
  by (auto simp add: isWalkable_def readCell_wf)

theorem isWalkable_spec_witness:
  "wfGrid oneRoomGrid \<and> isWalkable oneRoomGrid 3 3 = Some True \<and>
   isWalkable oneRoomGrid 7 3 = Some False \<and> isWalkable oneRoomGrid 40 3 = Some False \<and>
   isWalkable oneRoomGrid 3 (- 1) = Some False"
proof -
  have in1: "inDungeon 3 3" "inDungeon 7 3" by (simp_all add: inDungeon_def game_consts)
  have c: "getCell oneRoomGrid 3 3 = FLOOR" "getCell oneRoomGrid 7 3 = WALL"
    using in1 by (simp_all add: getCell_oneRoomGrid roomCells_def oneRoom_def)
  show ?thesis
    using isWalkable_spec [OF wfGrid_oneRoomGrid, of 3 3] isWalkable_spec [OF wfGrid_oneRoomGrid, of 7 3]
      isWalkable_spec [OF wfGrid_oneRoomGrid, of 40 3] isWalkable_spec [OF wfGrid_oneRoomGrid, of 3 "- 1"]
      wfGrid_oneRoomGrid c
    by (simp add: game_consts)
qed

section \<open>Three frames with RIGHT held\<close>

lemma oneRoomGrid_walkable: "isWalkable oneRoomGrid 3 3 = Some True" "isWalkable oneRoomGrid 4 3 = Some True"
  by code_simp+

lemma right_target: "getTargetFromDirection RIGHT cx cy = (cx + 1, cy)"
  by (simp add: getTargetFromDirection_def dir_consts)

lemma RIGHT_not_NONE: "RIGHT \<noteq> NONE"
  by (simp add: dir_consts)

lemma cellPixel_eq: "cellPixel c = 40 * real_of_int c + 5"
  by (simp add: cellPixel_def tdiv_def game_consts)

lemma frame_start:
  assumes "\<not> isMoving p" "lastInputDirection p \<noteq> RIGHT" "isWalkable g (gridX p + 1) (gridY p) = Some True"
  shows "fst (playingUpdate g RIGHT dt (p, cam)) =
           p\<lparr>isMoving := True, movingDirection := RIGHT, moveProgress := 0,
             targetGridX := gridX p + 1, targetGridY := gridY p,
             lastInputDirection := RIGHT, inputHoldTime := 0, continuousMoveEnabled := False\<rparr>"
  using assms
  by (simp add: playingUpdate_def updateMovement_def RIGHT_not_NONE
      updateInputTiming_def shouldAcceptInput_def right_target startMove_def Let_def)

lemma frame_moving:
  assumes "isMoving p" "\<not> continuousMoveEnabled p" "lastInputDirection p = RIGHT"
    "inputHoldTime p + dt < INPUT_BUFFER_TIME" "moveProgress p + MOVE_SPEED * dt < 1"
  shows "fst (playingUpdate g RIGHT dt (p, cam)) =
           p\<lparr>moveProgress := moveProgress p + MOVE_SPEED * dt,
             pixelX := cellPixel (gridX p) + (cellPixel (targetGridX p) - cellPixel (gridX p)) *
                         (1 - (1 - (moveProgress p + MOVE_SPEED * dt)) ^ 3),
             pixelY := cellPixel (gridY p) + (cellPixel (targetGridY p) - cellPixel (gridY p)) *
                         (1 - (1 - (moveProgress p + MOVE_SPEED * dt)) ^ 3),
             inputHoldTime := inputHoldTime p + dt\<rparr>"
  using assms
  by (simp add: playingUpdate_def updateMovement_def RIGHT_not_NONE
      updateInputTiming_def shouldAcceptInput_def Let_def)

lemma holdRight_Suc: "holdRight g pc (Suc n) = playingUpdate g RIGHT (2 / 100) (holdRight g pc n)"
  by (simp add: holdRight_def)

lemma holdRight_0: "holdRight g pc 0 = pc"
  by (simp add: holdRight_def)

lemma three_frames:
  assumes "\<not> isMoving p" "lastInputDirection p \<noteq> RIGHT" "isWalkable g (cx + 1) cy = Some True"
  shows "fst (holdRight g (setGridPosition p cx cy, cam) (Suc 0)) =
           (setGridPosition p cx cy)\<lparr>isMoving := True, movingDirection := RIGHT, moveProgress := 0,
              targetGridX := cx + 1, targetGridY := cy,
              lastInputDirection := RIGHT, inputHoldTime := 0, continuousMoveEnabled := False\<rparr>"
    and "fst (holdRight g (setGridPosition p cx cy, cam) (Suc (Suc 0))) =
           (setGridPosition p cx cy)\<lparr>isMoving := True, movingDirection := RIGHT, moveProgress := 16 / 100,
              targetGridX := cx + 1, targetGridY := cy,
              pixelX := cellPixel cx + (cellPixel (cx + 1) - cellPixel cx) * (1 - (1 - 16 / 100) ^ 3),
              lastInputDirection := RIGHT, inputHoldTime := 2 / 100, continuousMoveEnabled := False\<rparr>"
    and "fst (holdRight g (setGridPosition p cx cy, cam) (Suc (Suc (Suc 0)))) =
           (setGridPosition p cx cy)\<lparr>isMoving := True, movingDirection := RIGHT, moveProgress := 32 / 100,
              targetGridX := cx + 1, targetGridY := cy,
              pixelX := cellPixel cx + (cellPixel (cx + 1) - cellPixel cx) * (1 - (1 - 32 / 100) ^ 3),
              lastInputDirection := RIGHT, inputHoldTime := 4 / 100, continuousMoveEnabled := False\<rparr>"
proof -
  let ?p0 = "setGridPosition p cx cy"
  let ?s = "\<lambda>n. holdRight g (?p0, cam) n"
  have p0: "\<not> isMoving ?p0" "lastInputDirection ?p0 \<noteq> RIGHT" "gridX ?p0 = cx" "gridY ?p0 = cy"
    "isWalkable g (gridX ?p0 + 1) (gridY ?p0) = Some True"
    using assms by (simp_all add: setGridPosition_def)
  have s1: "?s (Suc 0) = (fst (?s (Suc 0)), snd (?s (Suc 0)))" by simp
  show 1: "fst (?s (Suc 0)) =
           ?p0\<lparr>isMoving := True, movingDirection := RIGHT, moveProgress := 0,
              targetGridX := cx + 1, targetGridY := cy,
              lastInputDirection := RIGHT, inputHoldTime := 0, continuousMoveEnabled := False\<rparr>"
    using frame_start [OF p0(1,2,5), of "2 / 100" cam] p0(3,4)
    by (simp add: holdRight_Suc holdRight_0)
  have "fst (?s (Suc (Suc 0))) = fst (playingUpdate g RIGHT (2 / 100) (fst (?s (Suc 0)), snd (?s (Suc 0))))"
    by (simp add: holdRight_Suc)
  also have "\<dots> = ?p0\<lparr>isMoving := True, movingDirection := RIGHT, moveProgress := 16 / 100,
              targetGridX := cx + 1, targetGridY := cy,
              pixelX := cellPixel cx + (cellPixel (cx + 1) - cellPixel cx) * (1 - (1 - 16 / 100) ^ 3),
              lastInputDirection := RIGHT, inputHoldTime := 2 / 100, continuousMoveEnabled := False\<rparr>"
    unfolding 1
    by (subst frame_moving) (simp_all add: p0 game_consts, simp add: setGridPosition_def)
  finally show 2: "fst (?s (Suc (Suc 0))) =
           ?p0\<lparr>isMoving := True, movingDirection := RIGHT, moveProgress := 16 / 100,
              targetGridX := cx + 1, targetGridY := cy,
              pixelX := cellPixel cx + (cellPixel (cx + 1) - cellPixel cx) * (1 - (1 - 16 / 100) ^ 3),
              lastInputDirection := RIGHT, inputHoldTime := 2 / 100, continuousMoveEnabled := False\<rparr>" .
  have "fst (?s (Suc (Suc (Suc 0)))) =
      fst (playingUpdate g RIGHT (2 / 100) (fst (?s (Suc (Suc 0))), snd (?s (Suc (Suc 0)))))"
    by (simp add: holdRight_Suc)
  also have "\<dots> = ?p0\<lparr>isMoving := True, movingDirection := RIGHT, moveProgress := 32 / 100,
              targetGridX := cx + 1, targetGridY := cy,
              pixelX := cellPixel cx + (cellPixel (cx + 1) - cellPixel cx) * (1 - (1 - 32 / 100) ^ 3),
              lastInputDirection := RIGHT, inputHoldTime := 4 / 100, continuousMoveEnabled := False\<rparr>"
    unfolding 2
    by (subst frame_moving) (simp_all add: p0 game_consts, simp add: setGridPosition_def)
  finally show "fst (?s (Suc (Suc (Suc 0)))) =
           ?p0\<lparr>isMoving := True, movingDirection := RIGHT, moveProgress := 32 / 100,
              targetGridX := cx + 1, targetGridY := cy,
              pixelX := cellPixel cx + (cellPixel (cx + 1) - cellPixel cx) * (1 - (1 - 32 / 100) ^ 3),
              lastInputDirection := RIGHT, inputHoldTime := 4 / 100, continuousMoveEnabled := False\<rparr>" .
qed

text \<open>
  Claim C9, as amended. A frame first advances a running move and only then starts a
  new one, so the first frame with RIGHT held starts the Transition with progress 0 and
  the pixel position still on the start cell. After frame 2 the progress is 0.16 and
  after frame 3 it is 0.32; the player is still Transitioning, its pixel x lies strictly
  between the canonical x of the start and of the target cell, and its pixel y is
  unchanged.
\<close>

theorem playing_three_frames:
  assumes "\<not> isMoving p" "lastInputDirection p \<noteq> RIGHT" "isWalkable g (cx + 1) cy = Some True"
  shows "isMoving (fst (holdRight g (setGridPosition p cx cy, cam) 1)) \<and>
         moveProgress (fst (holdRight g (setGridPosition p cx cy, cam) 1)) = 0 \<and>
         pixelX (fst (holdRight g (setGridPosition p cx cy, cam) 1)) = cellPixel cx \<and>
         pixelY (fst (holdRight g (setGridPosition p cx cy, cam) 1)) = cellPixel cy \<and>
         isMoving (fst (holdRight g (setGridPosition p cx cy, cam) 2)) \<and>
         moveProgress (fst (holdRight g (setGridPosition p cx cy, cam) 2)) = 16 / 100 \<and>
         cellPixel cx < pixelX (fst (holdRight g (setGridPosition p cx cy, cam) 2)) \<and>
         pixelX (fst (holdRight g (setGridPosition p cx cy, cam) 2)) < cellPixel (cx + 1) \<and>
         pixelY (fst (holdRight g (setGridPosition p cx cy, cam) 2)) = cellPixel cy \<and>
         isMoving (fst (holdRight g (setGridPosition p cx cy, cam) 3)) \<and>
         moveProgress (fst (holdRight g (setGridPosition p cx cy, cam) 3)) = 32 / 100 \<and>
         cellPixel cx < pixelX (fst (holdRight g (setGridPosition p cx cy, cam) 3)) \<and>
         pixelX (fst (holdRight g (setGridPosition p cx cy, cam) 3)) < cellPixel (cx + 1) \<and>
         pixelY (fst (holdRight g (setGridPosition p cx cy, cam) 3)) = cellPixel cy \<and>
         gridX (fst (holdRight g (setGridPosition p cx cy, cam) 3)) = cx \<and>
         gridY (fst (holdRight g (setGridPosition p cx cy, cam) 3)) = cy \<and>
         targetGridX (fst (holdRight g (setGridPosition p cx cy, cam) 3)) = cx + 1 \<and>
         targetGridY (fst (holdRight g (setGridPosition p cx cy, cam) 3)) = cy"
proof -
  have n: "(1::nat) = Suc 0" "(2::nat) = Suc (Suc 0)" "(3::nat) = Suc (Suc (Suc 0))" by simp_all
  show ?thesis
    unfolding n three_frames [OF assms]
    by (simp add: setGridPosition_def cellPixel_eq power3_eq_cube)
qed

theorem playing_three_frames_witness:
  "\<not> isMoving Player_init \<and> lastInputDirection Player_init \<noteq> RIGHT \<and>
   isWalkable oneRoomGrid (3 + 1) 3 = Some True \<and>
   isMoving (fst (holdRight oneRoomGrid (setGridPosition Player_init 3 3, Camera_init) 1)) \<and>
   moveProgress (fst (holdRight oneRoomGrid (setGridPosition Player_init 3 3, Camera_init) 1)) = 0 \<and>
   moveProgress (fst (holdRight oneRoomGrid (setGridPosition Player_init 3 3, Camera_init) 2)) = 16 / 100 \<and>
   moveProgress (fst (holdRight oneRoomGrid (setGridPosition Player_init 3 3, Camera_init) 3)) = 32 / 100 \<and>
   isMoving (fst (holdRight oneRoomGrid (setGridPosition Player_init 3 3, Camera_init) 3)) \<and>
   cellPixel 3 < pixelX (fst (holdRight oneRoomGrid (setGridPosition Player_init 3 3, Camera_init) 3)) \<and>
   pixelX (fst (holdRight oneRoomGrid (setGridPosition Player_init 3 3, Camera_init) 3)) < cellPixel (3 + 1) \<and>
   pixelY (fst (holdRight oneRoomGrid (setGridPosition Player_init 3 3, Camera_init) 3)) = cellPixel 3"
proof -
  have h: "\<not> isMoving Player_init" "lastInputDirection Player_init \<noteq> RIGHT"
    "isWalkable oneRoomGrid (3 + 1) 3 = Some True"
    by (simp_all add: Player_init_def dir_consts oneRoomGrid_walkable)
  show ?thesis
    using playing_three_frames [OF h, of Camera_init] h by simp
qed

text \<open>
  The claim as stated fails in the one-room dungeon: the progress after the frames 1, 2
  and 3 is 0, 0.16 and 0.32, not 0.16, 0.32 and 0.48.
\<close>

theorem playing_three_frames_counterexample:
  "isWalkable oneRoomGrid 3 3 = Some True \<and> isWalkable oneRoomGrid 4 3 = Some True \<and>
   \<not> isMoving (setGridPosition Player_init 3 3) \<and>
   moveProgress (fst (holdRight oneRoomGrid (setGridPosition Player_init 3 3, Camera_init) 1)) \<noteq> 16 / 100 \<and>
   moveProgress (fst (holdRight oneRoomGrid (setGridPosition Player_init 3 3, Camera_init) 2)) \<noteq> 32 / 100 \<and>
   moveProgress (fst (holdRight oneRoomGrid (setGridPosition Player_init 3 3, Camera_init) 3)) \<noteq> 48 / 100"
proof -
  have n: "(1::nat) = Suc 0" "(2::nat) = Suc (Suc 0)" "(3::nat) = Suc (Suc (Suc 0))" by simp_all
  have h: "\<not> isMoving Player_init" "lastInputDirection Player_init \<noteq> RIGHT"
    "isWalkable oneRoomGrid (3 + 1) 3 = Some True"
    by (simp_all add: Player_init_def dir_consts oneRoomGrid_walkable)
  show ?thesis
    unfolding n three_frames [OF h]
    by (simp add: oneRoomGrid_walkable setGridPosition_def Player_init_def)
qed

section \<open>Room separation\<close>

lemma tmod_nonneg: "0 \<le> a \<Longrightarrow> 0 < b \<Longrightarrow> tmod a b = a mod b"
  by (simp add: tmod_def tdiv_def minus_mult_div_eq_mod)

lemma inflatedOverlap_sym: "inflatedOverlap a b pad = inflatedOverlap b a pad"
  by (auto simp add: inflatedOverlap_def)

lemma inflatedOverlap_cells:
  "\<not> inflatedOverlap a b pad \<Longrightarrow> roomCells (inflate a pad) \<inter> roomCells b = {}"
  by (auto simp add: inflatedOverlap_def roomCells_def inflate_def)

lemma cells_inflatedOverlap:
  assumes "0 < room_width a + 2 * pad" "0 < room_height a + 2 * pad" "0 < room_width b" "0 < room_height b"
    "inflatedOverlap a b pad"
  shows "roomCells (inflate a pad) \<inter> roomCells b \<noteq> {}"
proof -
  have "(max (room_x a - pad) (room_x b), max (room_y a - pad) (room_y b))
          \<in> roomCells (inflate a pad) \<inter> roomCells b"
    using assms by (auto simp add: inflatedOverlap_def roomCells_def inflate_def)
  then show ?thesis by blast
qed

lemma roomOverlaps_iff:
  "roomOverlaps newRoom rms pad \<longleftrightarrow> (\<exists>q\<in>set rms. inflatedOverlap q newRoom pad)"
  by (induction rms) (auto simp add: inflatedOverlap_def)

lemma roomsApart_snoc:
  assumes "roomsApart rms" "\<not> roomOverlaps r rms 2"
  shows "roomsApart (rms @ [r])"
  unfolding roomsApart_def
proof (intro allI impI)
  fix i j
  assume a: "i < length (rms @ [r]) \<and> j < length (rms @ [r]) \<and> i \<noteq> j"
  have new: "\<And>q. q \<in> set rms \<Longrightarrow> \<not> inflatedOverlap q r 2 \<and> \<not> inflatedOverlap r q 2"
    using assms(2) by (auto simp add: roomOverlaps_iff inflatedOverlap_sym)
  consider "i < length rms" "j < length rms" | "i < length rms" "j = length rms"
    | "i = length rms" "j < length rms"
    using a by (cases "i < length rms"; cases "j < length rms") auto
  then show "\<not> inflatedOverlap ((rms @ [r]) ! i) ((rms @ [r]) ! j) 2"
  proof cases
    case 1
    then show ?thesis using assms(1) a by (simp add: roomsApart_def nth_append)
  next
    case 2
    then show ?thesis using new [of "rms ! i"] by (simp add: nth_append)
  next
    case 3
    then show ?thesis using new [of "rms ! j"] by (simp add: nth_append)
  qed
qed

lemma attempt_unfold:
  "generateDungeon_attempt rs (g, rms, k) =
     (let newRoom = sampledRoom rs k; g1 = carveRoom g newRoom;
          prevCenterX = room_x (last rms) + tdiv (room_width (last rms)) 2;
          prevCenterY = room_y (last rms) + tdiv (room_height (last rms)) 2;
          newCenterX = room_x newRoom + tdiv (room_width newRoom) 2;
          newCenterY = room_y newRoom + tdiv (room_height newRoom) 2
      in if roomOverlaps newRoom rms 2 then (g, rms, k + 4)
         else if rms = [] then (g1, [newRoom], k + 4)
         else if tmod (int (rs (k + 4))) 2 = 0
           then (carveVerticalCorridor (carveHorizontalCorridor g1 prevCenterX newCenterX prevCenterY)
                   prevCenterY newCenterY newCenterX, rms @ [newRoom], k + 5)
           else (carveHorizontalCorridor (carveVerticalCorridor g1 prevCenterY newCenterY prevCenterX)
                   prevCenterX newCenterX newCenterY, rms @ [newRoom], k + 5))"
  by (simp add: generateDungeon_attempt_def generateRoom_def rand_def sampledRoom_def Let_def
      eval_nat_numeral)

lemma attempt_rooms:
  "genRooms (generateDungeon_attempt rs st) =
     (if roomOverlaps (sampledRoom rs (snd (snd st))) (genRooms st) 2 then genRooms st
      else genRooms st @ [sampledRoom rs (snd (snd st))])"
  by (cases st) (simp add: attempt_unfold genRooms_def Let_def)

lemma loop_invariant:
  "(\<And>s. P s \<Longrightarrow> P (generateDungeon_attempt rs s)) \<Longrightarrow> P st \<Longrightarrow>
   P (generateDungeon_loop rs numRooms st attempts)"
proof (induction rs numRooms st attempts rule: generateDungeon_loop.induct)
  case (1 rs numRooms st attempts)
  show ?case
  proof (cases "int (length (fst (snd st))) < numRooms \<and> attempts < maxAttempts")
    case True
    have "generateDungeon_loop rs numRooms st attempts =
        generateDungeon_loop rs numRooms (generateDungeon_attempt rs st) (attempts + 1)"
      using True by (subst generateDungeon_loop.simps) simp
    moreover have "P (generateDungeon_loop rs numRooms (generateDungeon_attempt rs st) (attempts + 1))"
      using True "1.prems" by (intro "1.IH") auto
    ultimately show ?thesis by simp
  next
    case False
    then have "generateDungeon_loop rs numRooms st attempts = st"
      by (subst generateDungeon_loop.simps) auto
    then show ?thesis using "1.prems" by simp
  qed
qed

lemma generateDungeon_invariant:
  assumes "\<And>st. P st \<Longrightarrow> P (generateDungeon_attempt rs st)" "\<And>k'. P (wallGrid, [], k')"
  shows "P (generateDungeon rs k)"
  unfolding generateDungeon_def rand_def
  by (simp add: Let_def loop_invariant [where P = P, OF assms(1)] assms(2))

lemma roomsApart_generateDungeon: "roomsApart (genRooms (generateDungeon rs k))"
proof (rule generateDungeon_invariant [where P = "\<lambda>st. roomsApart (genRooms st)"])
  fix st assume "roomsApart (genRooms st)"
  then show "roomsApart (genRooms (generateDungeon_attempt rs st))"
    by (simp add: attempt_rooms roomsApart_snoc)
next
  fix k' show "roomsApart (genRooms (wallGrid, [], k'))"
    by (simp add: roomsApart_def genRooms_def)
qed

lemma demo_rooms: "genRooms (generateDungeon demoRand 0) = demoRooms"
  by code_simp

text \<open>
  Claim C1. Whatever the random stream, any two different entries of the room list that
  generateDungeon returns are apart under the padding test with padding 2: the first room
  inflated by 2 cells on every side does not intersect the second (and, the indices being
  arbitrary, neither does the second inflated intersect the first).
\<close>

theorem generateDungeon_rooms_apart:
  "\<forall>i j. i < length (genRooms (generateDungeon rs k)) \<and>
          j < length (genRooms (generateDungeon rs k)) \<and> i \<noteq> j \<longrightarrow>
     \<not> inflatedOverlap (genRooms (generateDungeon rs k) ! i) (genRooms (generateDungeon rs k) ! j) 2 \<and>
     roomCells (inflate (genRooms (generateDungeon rs k) ! i) 2) \<inter>
       roomCells (genRooms (generateDungeon rs k) ! j) = {}"
  using roomsApart_generateDungeon [of rs k]
  by (simp add: roomsApart_def inflatedOverlap_cells)

theorem generateDungeon_rooms_apart_witness:
  "(0::nat) < length (genRooms (generateDungeon demoRand 0)) \<and>
   (1::nat) < length (genRooms (generateDungeon demoRand 0)) \<and> (0::nat) \<noteq> 1 \<and>
   genRooms (generateDungeon demoRand 0) ! 0 = \<lparr>room_x = 1, room_y = 1, room_width = 4, room_height = 4\<rparr> \<and>
   genRooms (generateDungeon demoRand 0) ! 1 = \<lparr>room_x = 11, room_y = 1, room_width = 4, room_height = 4\<rparr> \<and>
   \<not> inflatedOverlap (genRooms (generateDungeon demoRand 0) ! 0) (genRooms (generateDungeon demoRand 0) ! 1) 2 \<and>
   roomCells (inflate (genRooms (generateDungeon demoRand 0) ! 0) 2) \<inter>
     roomCells (genRooms (generateDungeon demoRand 0) ! 1) = {}"
  using generateDungeon_rooms_apart [of demoRand 0, rule_format, of 0 1]
  by (simp add: demo_rooms demoRooms_def)

section \<open>Connectivity\<close>

lemma reachable_walkable: "reachable g a b \<Longrightarrow> walkableCell g a \<and> walkableCell g b"
  by (induction rule: reachable.induct) auto

lemma reachable_trans: "reachable g b c \<Longrightarrow> reachable g a b \<Longrightarrow> reachable g a c"
  by (induction rule: reachable.induct) (auto intro: reachable.step)

lemma cellPath_snoc:
  "cellPath g cs \<Longrightarrow> adjacent4 (last cs) c \<Longrightarrow> walkableCell g c \<Longrightarrow> cellPath g (cs @ [c])"
  by (induction g cs rule: cellPath.induct) auto

lemma cellPath_nonempty: "cellPath g cs \<Longrightarrow> cs \<noteq> []"
  by auto

lemma reachable_cellPath:
  "reachable g a b \<Longrightarrow> \<exists>cs. cellPath g cs \<and> hd cs = a \<and> last cs = b"
proof (induction rule: reachable.induct)
  case (start a)
  then have "cellPath g [a] \<and> hd [a] = a \<and> last [a] = a" by simp
  then show ?case by blast
next
  case (step a b c)
  then obtain cs where cs: "cellPath g cs" "hd cs = a" "last cs = b" by blast
  then have "cellPath g (cs @ [c])" using step.hyps(2,3) by (simp add: cellPath_snoc)
  moreover have "hd (cs @ [c]) = a" using cs cellPath_nonempty by (simp add: hd_append)
  ultimately show ?case by (intro exI [of _ "cs @ [c]"]) simp
qed

lemma cellPath_reachable:
  "cellPath g cs \<Longrightarrow> reachable g (hd cs) (last cs)"
proof (induction g cs rule: cellPath.induct)
  case (1 g)
  then show ?case by simp
next
  case (2 g c)
  then show ?case by (simp add: reachable.start)
next
  case (3 g c d cs)
  then have r: "reachable g d (last (d # cs))" by simp
  have "reachable g c c" using "3.prems" by (simp add: reachable.start)
  moreover have "walkableCell g d" using r reachable_walkable by blast
  ultimately have "reachable g c d" using "3.prems" by (intro reachable.step [of g c c d]) simp_all
  then show ?case using r reachable_trans by fastforce
qed

lemma adjacent4_sym: "adjacent4 c d \<Longrightarrow> adjacent4 d c"
  by (simp add: adjacent4_def abs_minus_commute)

lemma reachable_sym: "reachable g a b \<Longrightarrow> reachable g b a"
proof (induction rule: reachable.induct)
  case (start a)
  then show ?case by (rule reachable.start)
next
  case (step a b c)
  have b: "walkableCell g b" using step.hyps(1) reachable_walkable by blast
  have "reachable g c c" using step.hyps(3) by (rule reachable.start)
  then have "reachable g c b"
    using adjacent4_sym [OF step.hyps(2)] b by (rule reachable.step)
  then show ?case using step.IH by (rule reachable_trans [rotated])
qed

lemma reachable_mono:
  assumes "\<And>c. walkableCell g c \<Longrightarrow> walkableCell g' c"
  shows "reachable g a b \<Longrightarrow> reachable g' a b"
  by (induction rule: reachable.induct) (auto intro: reachable.intros assms)

lemma reachable_hline:
  "a \<le> b \<Longrightarrow> (\<And>x. a \<le> x \<Longrightarrow> x \<le> b \<Longrightarrow> walkableCell g (x, y)) \<Longrightarrow> reachable g (a, y) (b, y)"
proof (induction b rule: int_ge_induct)
  case base
  then show ?case by (intro reachable.start) simp
next
  case (step i)
  have "reachable g (a, y) (i, y)" using step by simp
  moreover have "adjacent4 (i, y) (i + 1, y)" by (simp add: adjacent4_def)
  moreover have "walkableCell g (i + 1, y)" using step by simp
  ultimately show ?case by (rule reachable.step)
qed

lemma reachable_vline:
  "a \<le> b \<Longrightarrow> (\<And>y. a \<le> y \<Longrightarrow> y \<le> b \<Longrightarrow> walkableCell g (x, y)) \<Longrightarrow> reachable g (x, a) (x, b)"
proof (induction b rule: int_ge_induct)
  case base
  then show ?case by (intro reachable.start) simp
next
  case (step i)
  have "reachable g (x, a) (x, i)" using step by simp
  moreover have "adjacent4 (x, i) (x, i + 1)" by (simp add: adjacent4_def)
  moreover have "walkableCell g (x, i + 1)" using step by simp
  ultimately show ?case by (rule reachable.step)
qed

lemma reachable_hseg:
  assumes "\<And>x. min x1 x2 \<le> x \<Longrightarrow> x \<le> max x1 x2 \<Longrightarrow> walkableCell g (x, y)"
  shows "reachable g (x1, y) (x2, y)"
proof (cases "x1 \<le> x2")
  case True
  then show ?thesis using assms by (intro reachable_hline) auto
next
  case False
  then have "reachable g (x2, y) (x1, y)" using assms by (intro reachable_hline) auto
  then show ?thesis by (rule reachable_sym)
qed

lemma reachable_vseg:
  assumes "\<And>y. min y1 y2 \<le> y \<Longrightarrow> y \<le> max y1 y2 \<Longrightarrow> walkableCell g (x, y)"
  shows "reachable g (x, y1) (x, y2)"
proof (cases "y1 \<le> y2")
  case True
  then show ?thesis using assms by (intro reachable_vline) auto
next
  case False
  then have "reachable g (x, y2) (x, y1)" using assms by (intro reachable_vline) auto
  then show ?thesis by (rule reachable_sym)
qed

lemma reachable_rect:
  assumes "\<And>c. c \<in> roomCells r \<Longrightarrow> walkableCell g c" "c1 \<in> roomCells r" "c2 \<in> roomCells r"
  shows "reachable g c1 c2"
proof -
  obtain x1 y1 x2 y2 where c: "c1 = (x1, y1)" "c2 = (x2, y2)" by (cases c1, cases c2) auto
  have "reachable g (x1, y1) (x2, y1)"
    using assms c by (intro reachable_hseg assms(1)) (auto simp add: roomCells_def)
  moreover have "reachable g (x2, y1) (x2, y2)"
    using assms c by (intro reachable_vseg assms(1)) (auto simp add: roomCells_def)
  ultimately show ?thesis using c reachable_trans by blast
qed

lemma TileType_walk: "t \<noteq> WALL \<longleftrightarrow> t = FLOOR \<or> t = CORRIDOR"
  by (cases t) auto

lemma walk_carveRoom:
  "wfGrid g \<Longrightarrow> walkableCell g c \<Longrightarrow> walkableCell (carveRoom g room) c"
  by (cases c) (simp add: walkableCell_def carveRoom_cell)

lemma walk_carveRoom_cells:
  "wfGrid g \<Longrightarrow> c \<in> roomCells room \<Longrightarrow> inDungeon (fst c) (snd c) \<Longrightarrow>
   walkableCell (carveRoom g room) c"
  by (cases c) (simp add: walkableCell_def carveRoom_cell)

lemma walk_carveH:
  "wfGrid g \<Longrightarrow> walkableCell g c \<Longrightarrow> walkableCell (carveHorizontalCorridor g x1 x2 y) c"
  by (cases c) (auto simp add: walkableCell_def carveHorizontalCorridor_cell)

lemma walk_carveV:
  "wfGrid g \<Longrightarrow> walkableCell g c \<Longrightarrow> walkableCell (carveVerticalCorridor g y1 y2 x) c"
  by (cases c) (auto simp add: walkableCell_def carveVerticalCorridor_cell)

lemma walk_carveH_seg:
  "wfGrid g \<Longrightarrow> inDungeon cx y \<Longrightarrow> min x1 x2 \<le> cx \<Longrightarrow> cx \<le> max x1 x2 \<Longrightarrow>
   walkableCell (carveHorizontalCorridor g x1 x2 y) (cx, y)"
  using TileType_walk [of "getCell g cx y"]
  by (auto simp add: walkableCell_def carveHorizontalCorridor_cell)

lemma walk_carveV_seg:
  "wfGrid g \<Longrightarrow> inDungeon x cy \<Longrightarrow> min y1 y2 \<le> cy \<Longrightarrow> cy \<le> max y1 y2 \<Longrightarrow>
   walkableCell (carveVerticalCorridor g y1 y2 x) (x, cy)"
  using TileType_walk [of "getCell g x cy"]
  by (auto simp add: walkableCell_def carveVerticalCorridor_cell)

lemma tmod_range: "0 \<le> a \<Longrightarrow> 0 < b \<Longrightarrow> 0 \<le> tmod a b \<and> tmod a b < b"
  by (simp add: tmod_nonneg)

lemma sampledRoom_ok: "roomOK (sampledRoom rs k)"
proof -
  have w: "0 \<le> tmod (int (rs k)) 6 \<and> tmod (int (rs k)) 6 < 6"
    by (rule tmod_range) simp_all
  have h: "0 \<le> tmod (int (rs (k + 1))) 6 \<and> tmod (int (rs (k + 1))) 6 < 6"
    by (rule tmod_range) simp_all
  have x: "0 \<le> tmod (int (rs (k + 2))) (DUNGEON_WIDTH - (4 + tmod (int (rs k)) 6) - 2) \<and>
           tmod (int (rs (k + 2))) (DUNGEON_WIDTH - (4 + tmod (int (rs k)) 6) - 2)
             < DUNGEON_WIDTH - (4 + tmod (int (rs k)) 6) - 2"
    using w by (intro tmod_range) (simp_all add: game_consts)
  have y: "0 \<le> tmod (int (rs (k + 3))) (DUNGEON_HEIGHT - (4 + tmod (int (rs (k + 1))) 6) - 2) \<and>
           tmod (int (rs (k + 3))) (DUNGEON_HEIGHT - (4 + tmod (int (rs (k + 1))) 6) - 2)
             < DUNGEON_HEIGHT - (4 + tmod (int (rs (k + 1))) 6) - 2"
    using h by (intro tmod_range) (simp_all add: game_consts)
  show ?thesis
    using w h x y by (simp add: roomOK_def sampledRoom_def Let_def)
qed

lemma roomOK_inDungeon: "roomOK r \<Longrightarrow> c \<in> roomCells r \<Longrightarrow> inDungeon (fst c) (snd c)"
  by (cases c) (auto simp add: roomOK_def roomCells_def inDungeon_def)

lemma tdiv_half: "0 \<le> a \<Longrightarrow> tdiv a 2 = a div 2"
  by (simp add: tdiv_def)

lemma roomCenter_in: "roomOK r \<Longrightarrow> roomCenter r \<in> roomCells r"
  by (auto simp add: roomOK_def roomCells_def roomCenter_def tdiv_half)

lemma genInv_extend:
  assumes inv: "genInv (g, rms, k)"
    and wf': "wfGrid g'"
    and mono: "\<And>c. walkableCell g c \<Longrightarrow> walkableCell g' c"
    and ok: "roomOK r"
    and cells: "\<And>c. c \<in> roomCells r \<Longrightarrow> walkableCell g' c"
    and link: "rms \<noteq> [] \<Longrightarrow> reachable g' (roomCenter (last rms)) (roomCenter r)"
  shows "genInv (g', rms @ [r], k')"
proof -
  have old_ok: "\<And>q. q \<in> set rms \<Longrightarrow> roomOK q"
    and old_cells: "\<And>q c. q \<in> set rms \<Longrightarrow> c \<in> roomCells q \<Longrightarrow> walkableCell g c"
    and old_reach: "\<And>q1 q2 c1 c2. q1 \<in> set rms \<Longrightarrow> q2 \<in> set rms \<Longrightarrow> c1 \<in> roomCells q1 \<Longrightarrow>
        c2 \<in> roomCells q2 \<Longrightarrow> reachable g c1 c2"
    using inv by (auto simp add: genInv_def genGrid_def genRooms_def)
  have old_new: "reachable g' c1 c2"
    if "q \<in> set rms" "c1 \<in> roomCells q" "c2 \<in> roomCells r" for q c1 c2
  proof -
    have ne: "rms \<noteq> []" using that(1) by auto
    then have l: "last rms \<in> set rms" by simp
    have "reachable g c1 (roomCenter (last rms))"
      using that l old_ok [OF l] by (intro old_reach [of q "last rms"] roomCenter_in)
    then have "reachable g' c1 (roomCenter (last rms))"
      using mono by (rule reachable_mono [rotated])
    moreover have "reachable g' (roomCenter r) c2"
      using cells roomCenter_in [OF ok] that(3) by (rule reachable_rect)
    ultimately show ?thesis
      using link [OF ne] reachable_trans by blast
  qed
  have reach: "reachable g' c1 c2"
    if q: "q1 \<in> set (rms @ [r])" "q2 \<in> set (rms @ [r])" "c1 \<in> roomCells q1" "c2 \<in> roomCells q2"
    for q1 q2 c1 c2
  proof -
    consider "q1 \<in> set rms" "q2 \<in> set rms" | "q1 \<in> set rms" "q2 = r"
      | "q1 = r" "q2 \<in> set rms" | "q1 = r" "q2 = r"
      using q(1,2) by auto
    then show ?thesis
    proof cases
      case 1
      then have "reachable g c1 c2" using q by (intro old_reach [of q1 q2])
      then show ?thesis using mono by (rule reachable_mono [rotated])
    next
      case 2
      then show ?thesis using q old_new by blast
    next
      case 3
      then have "reachable g' c2 c1" using q old_new by blast
      then show ?thesis by (rule reachable_sym)
    next
      case 4
      then show ?thesis using q cells reachable_rect by blast
    qed
  qed
  have rooms: "roomOK q \<and> (\<forall>c\<in>roomCells q. walkableCell g' c)" if "q \<in> set (rms @ [r])" for q
    using that ok cells old_ok old_cells mono by auto
  show ?thesis
    unfolding genInv_def genGrid_def genRooms_def
    using wf' rooms reach by simp
qed

lemma genInv_pos: "genInv (g, rms, k) \<Longrightarrow> genInv (g, rms, k')"
  by (simp add: genInv_def genGrid_def genRooms_def)

lemma between_inDungeon_h:
  "inDungeon x1 ya \<Longrightarrow> inDungeon x2 yb \<Longrightarrow> inDungeon xc y \<Longrightarrow>
   min x1 x2 \<le> x \<Longrightarrow> x \<le> max x1 x2 \<Longrightarrow> inDungeon x y"
  by (auto simp add: inDungeon_def)

lemma between_inDungeon_v:
  "inDungeon xa y1 \<Longrightarrow> inDungeon xb y2 \<Longrightarrow> inDungeon x yc \<Longrightarrow>
   min y1 y2 \<le> y \<Longrightarrow> y \<le> max y1 y2 \<Longrightarrow> inDungeon x y"
  by (auto simp add: inDungeon_def)

lemma link_hv:
  assumes wf: "wfGrid g" and p: "inDungeon px py" and n: "inDungeon nx ny"
  shows "reachable (carveVerticalCorridor (carveHorizontalCorridor g px nx py) py ny nx) (px, py) (nx, ny)"
proof -
  let ?g2 = "carveHorizontalCorridor g px nx py"
  let ?g3 = "carveVerticalCorridor ?g2 py ny nx"
  have wf2: "wfGrid ?g2" using wf by (rule carveHorizontalCorridor_cell)
  have "walkableCell ?g3 (x, py)" if "min px nx \<le> x" "x \<le> max px nx" for x
    using wf2 walk_carveH_seg [OF wf between_inDungeon_h [OF p n p that] that]
    by (rule walk_carveV)
  then have "reachable ?g3 (px, py) (nx, py)" by (rule reachable_hseg)
  moreover have "walkableCell ?g3 (nx, y)" if "min py ny \<le> y" "y \<le> max py ny" for y
    using wf2 between_inDungeon_v [OF p n n that] that by (rule walk_carveV_seg)
  then have "reachable ?g3 (nx, py) (nx, ny)" by (rule reachable_vseg)
  ultimately show ?thesis using reachable_trans by blast
qed

lemma link_vh:
  assumes wf: "wfGrid g" and p: "inDungeon px py" and n: "inDungeon nx ny"
  shows "reachable (carveHorizontalCorridor (carveVerticalCorridor g py ny px) px nx ny) (px, py) (nx, ny)"
proof -
  let ?g2 = "carveVerticalCorridor g py ny px"
  let ?g3 = "carveHorizontalCorridor ?g2 px nx ny"
  have wf2: "wfGrid ?g2" using wf by (rule carveVerticalCorridor_cell)
  have "walkableCell ?g3 (px, y)" if "min py ny \<le> y" "y \<le> max py ny" for y
    using wf2 walk_carveV_seg [OF wf between_inDungeon_v [OF p n p that] that]
    by (rule walk_carveH)
  then have "reachable ?g3 (px, py) (px, ny)" by (rule reachable_vseg)
  moreover have "walkableCell ?g3 (x, ny)" if "min px nx \<le> x" "x \<le> max px nx" for x
    using wf2 between_inDungeon_h [OF p n n that] that by (rule walk_carveH_seg)
  then have "reachable ?g3 (px, ny) (nx, ny)" by (rule reachable_hseg)
  ultimately show ?thesis using reachable_trans by blast
qed

lemma genInv_attempt:
  assumes "genInv st"
  shows "genInv (generateDungeon_attempt rs st)"
proof -
  obtain g rms k where st: "st = (g, rms, k)" by (cases st) auto
  let ?r = "sampledRoom rs k"
  let ?g1 = "carveRoom g ?r"
  let ?p = "roomCenter (last rms)"
  let ?n = "roomCenter ?r"
  have inv: "genInv (g, rms, k)" using assms st by simp
  have wf: "wfGrid g" using inv by (simp add: genInv_def genGrid_def)
  have wf1: "wfGrid ?g1" using wf by (rule carveRoom_cell)
  have ok: "roomOK ?r" by (rule sampledRoom_ok)
  have n_in: "inDungeon (fst ?n) (snd ?n)"
    using ok roomCenter_in [OF ok] by (rule roomOK_inDungeon)
  have cells1: "walkableCell ?g1 c" if "c \<in> roomCells ?r" for c
    using wf that roomOK_inDungeon [OF ok that] by (rule walk_carveRoom_cells)
  show ?thesis
  proof (cases "roomOverlaps ?r rms 2")
    case True
    then show ?thesis using inv st genInv_pos by (simp add: attempt_unfold Let_def)
  next
    case no: False
    show ?thesis
    proof (cases "rms = []")
      case True
      have "genInv (?g1, rms @ [?r], k + 4)"
      proof (rule genInv_extend [OF inv wf1 _ ok])
        show "walkableCell ?g1 c" if "walkableCell g c" for c
          using wf that by (rule walk_carveRoom)
        show "walkableCell ?g1 c" if "c \<in> roomCells ?r" for c
          using that by (rule cells1)
        show "reachable ?g1 (roomCenter (last rms)) ?n" if "rms \<noteq> []"
          using that True by simp
      qed
      then show ?thesis using no True st by (simp add: attempt_unfold Let_def)
    next
      case ne: False
      then have "last rms \<in> set rms" by simp
      then have okp: "roomOK (last rms)" using inv by (simp add: genInv_def genRooms_def)
      have p_in: "inDungeon (fst ?p) (snd ?p)"
        using okp roomCenter_in [OF okp] by (rule roomOK_inDungeon)
      let ?hv = "carveVerticalCorridor (carveHorizontalCorridor ?g1 (fst ?p) (fst ?n) (snd ?p))
                   (snd ?p) (snd ?n) (fst ?n)"
      let ?vh = "carveHorizontalCorridor (carveVerticalCorridor ?g1 (snd ?p) (snd ?n) (fst ?p))
                   (fst ?p) (fst ?n) (snd ?n)"
      have wfh: "wfGrid (carveHorizontalCorridor ?g1 (fst ?p) (fst ?n) (snd ?p))"
        using wf1 by (rule carveHorizontalCorridor_cell)
      have wfv: "wfGrid (carveVerticalCorridor ?g1 (snd ?p) (snd ?n) (fst ?p))"
        using wf1 by (rule carveVerticalCorridor_cell)
      have hv: "genInv (?hv, rms @ [?r], k + 5)"
      proof (rule genInv_extend [OF inv _ _ ok])
        show "wfGrid ?hv" using wfh by (rule carveVerticalCorridor_cell)
        show "walkableCell ?hv c" if "walkableCell g c" for c
          using wfh walk_carveH [OF wf1 walk_carveRoom [OF wf that]] by (rule walk_carveV)
        show "walkableCell ?hv c" if "c \<in> roomCells ?r" for c
          using wfh walk_carveH [OF wf1 cells1 [OF that]] by (rule walk_carveV)
        show "reachable ?hv ?p ?n"
          using link_hv [OF wf1 p_in n_in] by simp
      qed
      have vh: "genInv (?vh, rms @ [?r], k + 5)"
      proof (rule genInv_extend [OF inv _ _ ok])
        show "wfGrid ?vh" using wfv by (rule carveHorizontalCorridor_cell)
        show "walkableCell ?vh c" if "walkableCell g c" for c
          using wfv walk_carveV [OF wf1 walk_carveRoom [OF wf that]] by (rule walk_carveH)
        show "walkableCell ?vh c" if "c \<in> roomCells ?r" for c
          using wfv walk_carveV [OF wf1 cells1 [OF that]] by (rule walk_carveH)
        show "reachable ?vh ?p ?n"
          using link_vh [OF wf1 p_in n_in] by simp
      qed
      show ?thesis
        using no ne st hv vh by (simp add: attempt_unfold Let_def roomCenter_def)
    qed
  qed
qed

lemma genInv_generateDungeon: "genInv (generateDungeon rs k)"
proof (rule generateDungeon_invariant [where P = genInv])
  fix st assume "genInv st"
  then show "genInv (generateDungeon_attempt rs st)" by (rule genInv_attempt)
next
  fix k' show "genInv (wallGrid, [], k')"
    by (simp add: genInv_def genGrid_def genRooms_def wfGrid_wallGrid)
qed

text \<open>
  Claim C2. Whatever the random stream, every cell of every placed room is reachable
  from every cell of every placed room: there is a list of cells from the one to the
  other in which every cell lies in the dungeon, has kind Floor or Corridor and is
  4-adjacent to its predecessor. In particular this holds when at least two rooms were
  placed.
\<close>

theorem generateDungeon_connected:
  "\<forall>r1\<in>set (genRooms (generateDungeon rs k)). \<forall>r2\<in>set (genRooms (generateDungeon rs k)).
     \<forall>c1\<in>roomCells r1. \<forall>c2\<in>roomCells r2.
       reachable (genGrid (generateDungeon rs k)) c1 c2 \<and>
       (\<exists>cs. cellPath (genGrid (generateDungeon rs k)) cs \<and> hd cs = c1 \<and> last cs = c2)"
proof (intro ballI conjI)
  fix r1 r2 c1 c2
  assume "r1 \<in> set (genRooms (generateDungeon rs k))" "r2 \<in> set (genRooms (generateDungeon rs k))"
    "c1 \<in> roomCells r1" "c2 \<in> roomCells r2"
  then show r: "reachable (genGrid (generateDungeon rs k)) c1 c2"
    using genInv_generateDungeon [of rs k] by (simp add: genInv_def)
  then show "\<exists>cs. cellPath (genGrid (generateDungeon rs k)) cs \<and> hd cs = c1 \<and> last cs = c2"
    by (rule reachable_cellPath)
qed

theorem generateDungeon_connected_witness:
  "2 \<le> length (genRooms (generateDungeon demoRand 0)) \<and>
   \<lparr>room_x = 1, room_y = 1, room_width = 4, room_height = 4\<rparr> \<in> set (genRooms (generateDungeon demoRand 0)) \<and>
   \<lparr>room_x = 11, room_y = 1, room_width = 4, room_height = 4\<rparr> \<in> set (genRooms (generateDungeon demoRand 0)) \<and>
   (1, 1) \<in> roomCells \<lparr>room_x = 1, room_y = 1, room_width = 4, room_height = 4\<rparr> \<and>
   (14, 4) \<in> roomCells \<lparr>room_x = 11, room_y = 1, room_width = 4, room_height = 4\<rparr> \<and>
   reachable (genGrid (generateDungeon demoRand 0)) (1, 1) (14, 4) \<and>
   (\<exists>cs. cellPath (genGrid (generateDungeon demoRand 0)) cs \<and> hd cs = (1, 1) \<and> last cs = (14, 4))"
proof -
  let ?a = "\<lparr>room_x = 1, room_y = 1, room_width = 4, room_height = 4\<rparr>"
  let ?b = "\<lparr>room_x = 11, room_y = 1, room_width = 4, room_height = 4\<rparr>"
  have r: "?a \<in> set (genRooms (generateDungeon demoRand 0))" "?b \<in> set (genRooms (generateDungeon demoRand 0))"
    "2 \<le> length (genRooms (generateDungeon demoRand 0))"
    by (simp_all add: demo_rooms demoRooms_def)
  have c: "(1, 1) \<in> roomCells ?a" "(14, 4) \<in> roomCells ?b"
    by (simp_all add: roomCells_def)
  have "reachable (genGrid (generateDungeon demoRand 0)) (1, 1) (14, 4) \<and>
      (\<exists>cs. cellPath (genGrid (generateDungeon demoRand 0)) cs \<and> hd cs = (1, 1) \<and> last cs = (14, 4))"
    using generateDungeon_connected [of demoRand 0, rule_format, OF r(1) r(2) c] .
  then show ?thesis using r c by simp
qed

end
